theory Spec2Isabelle
  imports Main "HOL-Library.Word" "HOL-Library.Signed_Division"
begin

unbundle bit_operations_syntax

section \<open>Machine integers\<close>

text \<open>
  The target is a 32-bit processor: \<open>int32_t\<close>, \<open>uint32_t\<close> and \<open>int\<close> are 32-bit
  values.  Both are modelled as \<open>32 word\<close>; addition, subtraction and multiplication
  wrap around, and the signedness of the C++ type selects the comparison
  (\<open>word_sless\<close> against \<open><\<close>) and the division (\<open>sdiv32\<close>, \<open>smod32\<close> against
  \<open>div\<close>, \<open>mod\<close>).  C++ division truncates towards zero and the remainder takes the
  sign of the dividend.

  \<open>abs32\<close> is \<open>abs\<close> on an \<open>int32_t\<close>.  The magnitude of \<open>INT32_MIN\<close> is not an
  \<open>int32_t\<close> value, and C++ leaves \<open>abs(INT32_MIN)\<close> undefined.  \<open>abs32\<close> returns
  there what the two's complement negation computes, \<open>INT32_MIN\<close> again.  Every
  statement below that covers all step counts either excludes \<open>INT32_MIN\<close> or does
  not depend on what \<open>abs32\<close> returns for it.
\<close>

type_synonym int32_t = "32 word"
type_synonym uint32_t = "32 word"

definition sdiv32 :: "int32_t \<Rightarrow> int32_t \<Rightarrow> int32_t" where
  "sdiv32 a b = word_of_int (sint a sdiv sint b)"

definition smod32 :: "int32_t \<Rightarrow> int32_t \<Rightarrow> int32_t" where
  "smod32 a b = word_of_int (sint a smod sint b)"

definition abs32 :: "int32_t \<Rightarrow> int32_t" where
  "abs32 x = (if word_sless x 0 then - x else x)"

section \<open>GenericClockBoard\<close>

datatype StepperSpeed_t = StepSlow | StepAuto | StepFast

text \<open>
  What the board does to the outside world, in order: writes to the GPIO
  write-one-to-set and write-one-to-clear registers, and busy-wait delays.
\<close>

datatype event = GpioSet uint32_t | GpioClear uint32_t | DelayUs uint32_t

text \<open>
  The fields \<open>m_...\<close> are the private instance data of the class.  The remaining
  fields are the hardware and the observations the properties speak about:
  \<open>gpio_out\<close> is the GPIO output register, \<open>trace\<close> the events so far,
  \<open>step_calls\<close> the arguments of every call of \<open>Step\<close> so far, \<open>shaft\<close> the
  position of the motor shaft in steps (clockwise positive), which follows each
  phase pulse by one step, and \<open>home_reads\<close> the number of times the home pin has
  been read so far.
\<close>

record GenericClockBoard =
  m_CurrentStepperPhase :: int32_t
  m_pStepperPins :: "nat list"
  m_NumStepperPhases :: uint32_t
  m_StepperRapidDelayUs :: uint32_t
  m_StepperClearMask :: uint32_t
  m_StepperSequence :: "uint32_t list"
  m_InvertHome :: bool
  gpio_out :: uint32_t
  trace :: "event list"
  step_calls :: "(int32_t \<times> StepperSpeed_t) list"
  shaft :: int
  home_reads :: nat

definition PHASE_1_PIN :: nat where "PHASE_1_PIN = 19"
definition PHASE_2_PIN :: nat where "PHASE_2_PIN = 16"
definition PHASE_3_PIN :: nat where "PHASE_3_PIN = 17"
definition PHASE_4_PIN :: nat where "PHASE_4_PIN = 21"
definition NUM_STEPPER_PINS :: nat where "NUM_STEPPER_PINS = 4"

definition StepperPins :: "nat list" where
  "StepperPins = [PHASE_1_PIN, PHASE_2_PIN, PHASE_3_PIN, PHASE_4_PIN]"

definition StepperPinsReversed :: "nat list" where
  "StepperPinsReversed = [PHASE_4_PIN, PHASE_3_PIN, PHASE_2_PIN, PHASE_1_PIN]"

definition STEP_CW :: int32_t where "STEP_CW = 1"
definition STEP_CCW :: int32_t where "STEP_CCW = - 1"

definition gpio_w1ts :: "uint32_t \<Rightarrow> 'a GenericClockBoard_scheme \<Rightarrow> 'a GenericClockBoard_scheme" where
  "gpio_w1ts w st = st\<lparr>gpio_out := gpio_out st OR w, trace := trace st @ [GpioSet w]\<rparr>"

definition gpio_w1tc :: "uint32_t \<Rightarrow> 'a GenericClockBoard_scheme \<Rightarrow> 'a GenericClockBoard_scheme" where
  "gpio_w1tc w st = st\<lparr>gpio_out := gpio_out st AND NOT w, trace := trace st @ [GpioClear w]\<rparr>"

definition delayMicroseconds :: "uint32_t \<Rightarrow> 'a GenericClockBoard_scheme \<Rightarrow> 'a GenericClockBoard_scheme" where
  "delayMicroseconds us st = st\<lparr>trace := trace st @ [DelayUs us]\<rparr>"

text \<open>\<open>PIN_BP(p)\<close>: the bit pattern \<open>1UL << pins[p]\<close>.\<close>

definition PIN_BP :: "nat list \<Rightarrow> nat \<Rightarrow> uint32_t" where
  "PIN_BP pins p = push_bit (pins ! p) 1"

text \<open>
  The loop of the constructor that fills \<open>m_StepperSequence\<close>; \<open>i\<close> runs from 0 to
  \<open>NUM_STEPPER_PINS - 1\<close>.
\<close>

definition init_sequence_step :: "nat list \<Rightarrow> uint32_t \<Rightarrow> nat \<Rightarrow> uint32_t list \<Rightarrow> uint32_t list" where
  "init_sequence_step pins numPhases i sq =
     (if numPhases = 4 then sq[i := PIN_BP pins i]
      else (let j = 2 * i in
            (sq[j := PIN_BP pins i])
              [j + 1 := PIN_BP pins i OR PIN_BP pins ((i + 1) mod NUM_STEPPER_PINS)]))"

text \<open>
  The constructor.  \<open>gpio0\<close> and \<open>shaft0\<close> are the state of the output register and of
  the shaft at power-up.  The eight entries of \<open>m_StepperSequence\<close> start as 0; the
  source leaves entries 4 to 7 unwritten when full stepping, and never reads them.
  The division by \<open>stepsPerRev\<close> traps when it is 0: the result is \<open>None\<close>.
\<close>

definition GenericClockBoard_ctor ::
  "uint32_t \<Rightarrow> uint32_t \<Rightarrow> bool \<Rightarrow> bool \<Rightarrow> bool \<Rightarrow> uint32_t \<Rightarrow> int \<Rightarrow> GenericClockBoard option" where
  "GenericClockBoard_ctor rapidSecondsPerRev fullStepsPerRev stepperPinsReversed
       stepperHalfStepping homeNormallyOpen gpio0 shaft0 =
     (let pins = (if stepperPinsReversed then StepperPinsReversed else StepperPins);
          out0 = fold (\<lambda>i out. out AND NOT (push_bit (pins ! i) 1)) [0..<NUM_STEPPER_PINS] gpio0;
          numPhases = (if stepperHalfStepping then 8 else 4);
          stepsPerRev = fullStepsPerRev * (if stepperHalfStepping then 2 else 1);
          US_PER_SEC = 1000000
      in if stepsPerRev = 0 then None
         else Some \<lparr>
           m_CurrentStepperPhase = 0,
           m_pStepperPins = pins,
           m_NumStepperPhases = numPhases,
           m_StepperRapidDelayUs = US_PER_SEC * rapidSecondsPerRev div stepsPerRev,
           m_StepperClearMask = PIN_BP pins 0 OR PIN_BP pins 1 OR PIN_BP pins 2 OR PIN_BP pins 3,
           m_StepperSequence =
             fold (init_sequence_step pins numPhases) [0..<NUM_STEPPER_PINS] (replicate 8 0),
           m_InvertHome = homeNormallyOpen,
           gpio_out = out0,
           trace = [],
           step_calls = [],
           shaft = shaft0,
           home_reads = 0 \<rparr>)"

subsection \<open>Step\<close>

text \<open>The statement \<open>if (c) delayMicroseconds(m_StepperRapidDelayUs);\<close>.\<close>

definition delay_if :: "bool \<Rightarrow> 'a GenericClockBoard_scheme \<Rightarrow> 'a GenericClockBoard_scheme" where
  "delay_if c st = (if c then delayMicroseconds (m_StepperRapidDelayUs st) st else st)"

text \<open>
  The six conditional delays of the automatic speed, in the order of the source:
  three for the acceleration, three for the deceleration.
\<close>

definition Step_auto_delays ::
  "int32_t \<Rightarrow> int32_t \<Rightarrow> 'a GenericClockBoard_scheme \<Rightarrow> 'a GenericClockBoard_scheme" where
  "Step_auto_delays absSteps j st =
     (let a1 = delay_if (word_sless j 20) st;
          a2 = delay_if (word_sless j 10) a1;
          a3 = delay_if (word_sless j 5) a2;
          d1 = delay_if (word_sless (absSteps - j) 20) a3;
          d2 = delay_if (word_sless (absSteps - j) 10) d1;
          d3 = delay_if (word_sless (absSteps - j) 5) d2
      in d3)"

text \<open>
  One iteration of the loop of \<open>Step\<close>, for the loop index \<open>j\<close>: advance the phase,
  output its pattern, delay according to the speed, clear the phase outputs.  The
  shaft follows the phase: one step clockwise when the increment is 1, one step
  counterclockwise otherwise.
\<close>

definition Step_body ::
  "StepperSpeed_t \<Rightarrow> int32_t \<Rightarrow> int32_t \<Rightarrow> int32_t \<Rightarrow>
   'a GenericClockBoard_scheme \<Rightarrow> 'a GenericClockBoard_scheme" where
  "Step_body speed delta absSteps j st =
     (let st1 = st\<lparr>m_CurrentStepperPhase :=
                     (m_CurrentStepperPhase st + delta) mod m_NumStepperPhases st,
                   shaft := shaft st + (if delta = 1 then 1 else - 1)\<rparr>;
          st2 = gpio_w1ts (m_StepperSequence st1 ! unat (m_CurrentStepperPhase st1)) st1;
          st3 = delayMicroseconds (m_StepperRapidDelayUs st2) st2;
          st4 = (if speed = StepSlow then delayMicroseconds (m_StepperRapidDelayUs st3 * 4) st3
                 else if speed = StepAuto then Step_auto_delays absSteps j st3
                 else st3)
      in gpio_w1tc (m_StepperClearMask st4) st4)"

text \<open>The loop \<open>for (int32_t j = 0; j < absSteps; j++)\<close>, entered at \<open>j\<close>.\<close>

function Step_loop ::
  "StepperSpeed_t \<Rightarrow> int32_t \<Rightarrow> int32_t \<Rightarrow> int32_t \<Rightarrow>
   'a GenericClockBoard_scheme \<Rightarrow> 'a GenericClockBoard_scheme" where
  "Step_loop speed delta absSteps j st =
     (if word_sless j absSteps
      then Step_loop speed delta absSteps (j + 1) (Step_body speed delta absSteps j st)
      else st)"
  by pat_completeness auto

termination
proof (relation "measure (\<lambda>(speed, delta, absSteps, j, st). nat (sint absSteps - sint j))")
  show "wf (measure (\<lambda>(speed, delta, absSteps, j, st :: 'a GenericClockBoard_scheme). nat (sint absSteps - sint j)))"
    by simp
next
  fix speed delta absSteps j :: "32 word" and st :: "'a GenericClockBoard_scheme" and sp :: StepperSpeed_t
  assume "word_sless j absSteps"
  then have lt: "sint j < sint absSteps" by (simp add: word_sless_alt)
  moreover have "sint absSteps < 2 ^ 31" using sint_lt [of absSteps] by simp
  moreover have "- (2 ^ 31) \<le> sint j" using sint_ge [of j] by simp
  ultimately have "signed_take_bit 31 (sint j + 1) = sint j + 1"
    by (simp add: signed_take_bit_int_eq_self)
  then have "sint (j + 1) = sint j + 1" by (simp add: sint_word_ariths)
  with lt show "((sp, delta, absSteps, j + 1, Step_body sp delta absSteps j st),
              (sp, delta, absSteps, j, st))
             \<in> measure (\<lambda>(speed, delta, absSteps, j, st). nat (sint absSteps - sint j))"
    by simp
qed

declare Step_loop.simps [simp del]

definition Step :: "int32_t \<Rightarrow> StepperSpeed_t \<Rightarrow> 'a GenericClockBoard_scheme \<Rightarrow> 'a GenericClockBoard_scheme" where
  "Step steps speed st0 =
     (let st = st0\<lparr>step_calls := step_calls st0 @ [(steps, speed)]\<rparr>
      in if steps = 0 then gpio_w1tc (m_StepperClearMask st) st
         else (let delta = (if word_sless 0 steps then 1 else m_NumStepperPhases st - 1);
                   absSteps = abs32 steps
               in Step_loop speed delta absSteps 0 st))"

subsection \<open>IsHome\<close>

text \<open>
  \<open>digitalRead(HOME_PIN) == HIGH\<close> is an input from the outside, and two reads may
  differ even when the shaft has not moved.  The pin is a parameter:
  \<open>home_high k p\<close> holds when read number \<open>k\<close> of the pin (counted from 0), made
  with the shaft at step \<open>p\<close>, gives HIGH.  \<open>IsHome\<close> returns its result with the
  state, in which the read is counted.
\<close>

definition IsHome ::
  "(nat \<Rightarrow> int \<Rightarrow> bool) \<Rightarrow> 'a GenericClockBoard_scheme \<Rightarrow> bool \<times> 'a GenericClockBoard_scheme" where
  "IsHome home_high st =
     (home_high (home_reads st) (shaft st) \<noteq> m_InvertHome st,
      st\<lparr>home_reads := Suc (home_reads st)\<rparr>)"

section \<open>GenevaClockMechanics\<close>

datatype StatusCode_t =
  StatusSuccess | StatusHomePhase1Error | StatusHomePhase2Error | StatusHomePhase3Error

record GenevaClockMechanics = GenericClockBoard +
  m_LastStepperPos :: int32_t
  m_LastMinutes :: int32_t
  m_StepsPerHour :: uint32_t
  m_StepsPerCycle :: int32_t

definition MINUTES_PER_HOUR :: uint32_t where "MINUTES_PER_HOUR = 60"
definition HOURS_PER_REV :: uint32_t where "HOURS_PER_REV = 3"
definition HOURS_PER_CYCLE :: uint32_t where "HOURS_PER_CYCLE = 12"
definition MINUTES_PER_CYCLE :: int32_t where "MINUTES_PER_CYCLE = MINUTES_PER_HOUR * HOURS_PER_CYCLE"
definition GEAR_RATIO :: uint32_t where "GEAR_RATIO = 32 div 8"

text \<open>The two fields of \<open>struct tm\<close> that the clock reads.\<close>

record tm =
  tm_hour :: int32_t
  tm_min :: int32_t

text \<open>The constructor: the base class first, then the step counts.\<close>

definition GenevaClockMechanics_ctor ::
  "uint32_t \<Rightarrow> uint32_t \<Rightarrow> bool \<Rightarrow> bool \<Rightarrow> bool \<Rightarrow> uint32_t \<Rightarrow> int \<Rightarrow> GenevaClockMechanics option" where
  "GenevaClockMechanics_ctor rapidSecondsPerRev fullStepsPerRev stepperPinsReversed
       stepperHalfStepping homeNormallyOpen gpio0 shaft0 =
     (case GenericClockBoard_ctor rapidSecondsPerRev fullStepsPerRev stepperPinsReversed
             stepperHalfStepping homeNormallyOpen gpio0 shaft0 of
        None \<Rightarrow> None
      | Some b \<Rightarrow>
          (let stepsPerRev = fullStepsPerRev * (if stepperHalfStepping then 2 else 1)
           in Some \<lparr>
             m_CurrentStepperPhase = m_CurrentStepperPhase b,
             m_pStepperPins = m_pStepperPins b,
             m_NumStepperPhases = m_NumStepperPhases b,
             m_StepperRapidDelayUs = m_StepperRapidDelayUs b,
             m_StepperClearMask = m_StepperClearMask b,
             m_StepperSequence = m_StepperSequence b,
             m_InvertHome = m_InvertHome b,
             gpio_out = gpio_out b,
             trace = trace b,
             step_calls = step_calls b,
             shaft = shaft b,
             home_reads = home_reads b,
             m_LastStepperPos = 0,
             m_LastMinutes = 0,
             m_StepsPerHour = (stepsPerRev * GEAR_RATIO) div HOURS_PER_REV,
             m_StepsPerCycle = stepsPerRev * GEAR_RATIO * (HOURS_PER_CYCLE div HOURS_PER_REV) \<rparr>))"

subsection \<open>UpdateClock\<close>

text \<open>
  The remainder \<open>% m_StepsPerCycle\<close> traps when \<open>m_StepsPerCycle\<close> is 0: the result is
  \<open>None\<close>.  The hour is reduced in unsigned arithmetic (\<open>HOURS_PER_CYCLE\<close> is
  unsigned); the product, the quotient by \<open>MINUTES_PER_CYCLE\<close>, the comparisons and
  the final remainder are signed.
\<close>

text \<open>The three values that \<open>UpdateClock\<close> computes before it moves the motor.\<close>

definition newTimeInMinutes :: "tm \<Rightarrow> int32_t" where
  "newTimeInMinutes localTime =
     ((tm_hour localTime mod HOURS_PER_CYCLE) * MINUTES_PER_HOUR) + tm_min localTime"

definition newMotorPos :: "int32_t \<Rightarrow> int32_t \<Rightarrow> int32_t" where
  "newMotorPos minutes stepsPerCycle = sdiv32 (minutes * stepsPerCycle) MINUTES_PER_CYCLE"

definition deltaSteps :: "int32_t \<Rightarrow> int32_t \<Rightarrow> int32_t \<Rightarrow> int32_t" where
  "deltaSteps motorPos lastStepperPos stepsPerCycle =
     (let d = motorPos - lastStepperPos
      in if word_sless (sdiv32 stepsPerCycle 2) d then d - stepsPerCycle
         else if word_sless d (sdiv32 (- stepsPerCycle) 2) then d + stepsPerCycle
         else d)"

definition UpdateClock :: "tm \<Rightarrow> GenevaClockMechanics \<Rightarrow> GenevaClockMechanics option" where
  "UpdateClock localTime st =
     (let minutes = newTimeInMinutes localTime
      in if minutes \<noteq> m_LastMinutes st then
           (let st1 = st\<lparr>m_LastMinutes := minutes\<rparr>;
                motorPos = newMotorPos minutes (m_StepsPerCycle st1);
                steps = deltaSteps motorPos (m_LastStepperPos st1) (m_StepsPerCycle st1);
                st2 = Step steps StepAuto st1
            in if m_StepsPerCycle st2 = 0 then None
               else Some (st2\<lparr>m_LastStepperPos :=
                            smod32 (m_LastStepperPos st2 + steps) (m_StepsPerCycle st2)\<rparr>))
         else Some st)"

subsection \<open>Home\<close>

text \<open>
  The loop \<open>for (i = 0; cond && (i < bound); i++) body\<close> with an unsigned counter,
  entered at \<open>i\<close>; it returns the counter with the state.  The condition \<open>cond\<close>
  reads the home pin, so it returns its value with a state; it stands to the left
  of \<open>&&\<close> and is evaluated every time the loop test is, also the last time.
\<close>

function for_loop ::
  "('s \<Rightarrow> bool \<times> 's) \<Rightarrow> ('s \<Rightarrow> 's) \<Rightarrow> uint32_t \<Rightarrow> uint32_t \<Rightarrow> 's \<Rightarrow> uint32_t \<times> 's" where
  "for_loop cond body bound i st =
     (if fst (cond st) \<and> i < bound
      then for_loop cond body bound (i + 1) (body (snd (cond st)))
      else (i, snd (cond st)))"
  by pat_completeness auto
termination
proof (relation "measure (\<lambda>(cond, body, bound, i, st). unat bound - unat i)")
  show "wf (measure (\<lambda>(cond :: 's \<Rightarrow> bool \<times> 's, body :: 's \<Rightarrow> 's, bound :: uint32_t,
              i :: uint32_t, st :: 's). unat bound - unat i))"
    by simp
next
  fix cond :: "'s \<Rightarrow> bool \<times> 's" and body :: "'s \<Rightarrow> 's" and bound i :: uint32_t and st :: 's
  assume "fst (cond st) \<and> i < bound"
  then have lt: "unat i < unat bound" by (simp add: word_less_nat_alt)
  moreover have "unat bound < 2 ^ 32" using unsigned_less [of bound] by simp
  ultimately have "unat (i + 1) = unat i + 1" by (simp add: unat_word_ariths)
  with lt show "((cond, body, bound, i + 1, body (snd (cond st))), (cond, body, bound, i, st))
        \<in> measure (\<lambda>(cond, body, bound, i, st). unat bound - unat i)"
    by simp
qed

declare for_loop.simps [simp del]

text \<open>The loop condition \<open>!IsHome()\<close>.\<close>

definition not_IsHome ::
  "(nat \<Rightarrow> int \<Rightarrow> bool) \<Rightarrow> 'a GenericClockBoard_scheme \<Rightarrow> bool \<times> 'a GenericClockBoard_scheme" where
  "not_IsHome home_high st = (\<not> fst (IsHome home_high st), snd (IsHome home_high st))"

text \<open>
  \<open>Home\<close> returns the status code with the state.  \<open>Step\<close> and \<open>IsHome\<close> never write
  \<open>m_StepsPerHour\<close>, so the bound of the second and third loop is read once.
\<close>

definition Home ::
  "(nat \<Rightarrow> int \<Rightarrow> bool) \<Rightarrow> GenevaClockMechanics \<Rightarrow> StatusCode_t \<times> GenevaClockMechanics" where
  "Home home_high st =
     (let MAX_STEPS = m_StepsPerCycle st + m_StepsPerHour st;
          (i1, st1) = for_loop (not_IsHome home_high) (Step STEP_CW StepFast) MAX_STEPS 0 st
      in if MAX_STEPS \<le> i1 then (StatusHomePhase1Error, st1)
         else
          (let (i2, st2) = for_loop (IsHome home_high) (Step STEP_CCW StepFast)
                             (m_StepsPerHour st1) 0 st1
           in if m_StepsPerHour st2 \<le> i2 then (StatusHomePhase2Error, st2)
              else
               (let (i3, st3) = for_loop (not_IsHome home_high) (Step STEP_CW StepSlow)
                                  (m_StepsPerHour st2) 0 st2
                in if m_StepsPerHour st3 \<le> i3 then (StatusHomePhase3Error, st3)
                   else (StatusSuccess, st3\<lparr>m_LastStepperPos := 0, m_LastMinutes := 0\<rparr>))))"

section \<open>A concrete board\<close>

text \<open>
  The board as the header's defaults build it, for a 28BYJ-48 motor: 8 seconds per
  revolution, 2048 full steps per revolution, pins not reversed, half stepping, a
  normally open home switch; the output register and the shaft start at 0.
\<close>

definition board0 :: GenericClockBoard where
  "board0 = the (GenericClockBoard_ctor 8 2048 False True True 0 0)"

text \<open>The clock built on that board, with the shaft at step \<open>shaft0\<close> at power-up.\<close>

definition clock0 :: "int \<Rightarrow> GenevaClockMechanics" where
  "clock0 shaft0 = the (GenevaClockMechanics_ctor 8 2048 False True True 0 shaft0)"

section \<open>A caller\<close>

text \<open>The time \<open>h:m\<close>, and a caller that passes a list of times to \<open>UpdateClock\<close> in turn.\<close>

definition hhmm :: "int32_t \<Rightarrow> int32_t \<Rightarrow> tm" where
  "hhmm h m = \<lparr>tm_hour = h, tm_min = m\<rparr>"

fun UpdateClock_seq :: "tm list \<Rightarrow> GenevaClockMechanics \<Rightarrow> GenevaClockMechanics option" where
  "UpdateClock_seq [] st = Some st"
| "UpdateClock_seq (t # ts) st =
     (case UpdateClock t st of None \<Rightarrow> None | Some st' \<Rightarrow> UpdateClock_seq ts st')"

section \<open>A simulated home sensor\<close>

text \<open>
  The level of the home pin for a sensor that is active exactly while the shaft is
  at a step from \<open>lo\<close> to \<open>hi - 1\<close>, at every read \<open>k\<close>; \<open>invert\<close> is the polarity
  \<open>m_InvertHome\<close> of the board that reads it, so that \<open>IsHome\<close> holds exactly on
  that range.
\<close>

definition range_sensor :: "bool \<Rightarrow> int \<Rightarrow> int \<Rightarrow> nat \<Rightarrow> int \<Rightarrow> bool" where
  "range_sensor invert lo hi k p = ((lo \<le> p \<and> p < hi) \<noteq> invert)"

text \<open>
  Two pins that do not follow the shaft: one that gives the same level at every
  read, and a sensor that reads active at the first \<open>n\<close> reads and inactive ever
  after (a contact that opens, a sensor that fails).
\<close>

definition fixed_level :: "bool \<Rightarrow> nat \<Rightarrow> int \<Rightarrow> bool" where
  "fixed_level level k p = level"

definition early_sensor :: "bool \<Rightarrow> nat \<Rightarrow> nat \<Rightarrow> int \<Rightarrow> bool" where
  "early_sensor invert n k p = ((k < n) \<noteq> invert)"

section \<open>One round of a loop of Home\<close>

text \<open>
  Each of the three loops of \<open>Home\<close> repeats the same round: the pin is read, then
  the motor makes one step.  \<open>read_step\<close> is the effect of one round on the state.
\<close>

definition read_step ::
  "int32_t \<Rightarrow> StepperSpeed_t \<Rightarrow> 'a GenericClockBoard_scheme \<Rightarrow> 'a GenericClockBoard_scheme" where
  "read_step steps speed st = Step steps speed (st\<lparr>home_reads := Suc (home_reads st)\<rparr>)"

section \<open>The delay profile as the specification words it\<close>

text \<open>
  For the automatic speed the specification counts, at iteration \<open>j\<close> of a move of
  \<open>n\<close> steps, one rapid delay plus one more for each of the thresholds
  \<open>j < 20\<close>, \<open>j < 10\<close>, \<open>j < 5\<close>, \<open>n - j < 20\<close>, \<open>n - j < 10\<close>, \<open>n - j < 5\<close>
  that holds.  This definition follows the specification, not the source.
\<close>

definition spec_auto_units :: "nat \<Rightarrow> nat \<Rightarrow> nat" where
  "spec_auto_units j n =
     1 + (if j < 20 then 1 else 0) + (if j < 10 then 1 else 0) + (if j < 5 then 1 else 0)
       + (if n - j < 20 then 1 else 0) + (if n - j < 10 then 1 else 0) + (if n - j < 5 then 1 else 0)"

section \<open>Properties of Step\<close>

subsection \<open>What Step can change\<close>

text \<open>One iteration written out field by field; every other field keeps its value.\<close>

lemma delay_if_eq:
  "delay_if c st = st\<lparr>trace := trace st @ replicate (if c then 1 else 0) (DelayUs (m_StepperRapidDelayUs st))\<rparr>"
  by (simp add: delay_if_def delayMicroseconds_def)

lemma Step_auto_delays_eq:
  "Step_auto_delays a j st =
     st\<lparr>trace := trace st @ replicate
        ((if word_sless j 20 then 1 else 0) + (if word_sless j 10 then 1 else 0)
         + (if word_sless j 5 then 1 else 0) + (if word_sless (a - j) 20 then 1 else 0)
         + (if word_sless (a - j) 10 then 1 else 0) + (if word_sless (a - j) 5 then 1 else 0))
        (DelayUs (m_StepperRapidDelayUs st))\<rparr>"
  unfolding Step_auto_delays_def Let_def delay_if_eq
  by (simp add: replicate_add del: replicate.simps)

lemma Step_body_eq:
  "Step_body sp d a j st =
     st\<lparr>m_CurrentStepperPhase := (m_CurrentStepperPhase st + d) mod m_NumStepperPhases st,
        shaft := shaft st + (if d = 1 then 1 else - 1),
        gpio_out := (gpio_out st OR m_StepperSequence st !
                       unat ((m_CurrentStepperPhase st + d) mod m_NumStepperPhases st))
                    AND NOT (m_StepperClearMask st),
        trace := trace st
          @ GpioSet (m_StepperSequence st !
                       unat ((m_CurrentStepperPhase st + d) mod m_NumStepperPhases st))
          # DelayUs (m_StepperRapidDelayUs st)
          # trace (if sp = StepSlow then delayMicroseconds (m_StepperRapidDelayUs st * 4) (st\<lparr>trace := []\<rparr>)
                   else if sp = StepAuto then Step_auto_delays a j (st\<lparr>trace := []\<rparr>)
                   else st\<lparr>trace := []\<rparr>)
          @ [GpioClear (m_StepperClearMask st)]\<rparr>"
  by (cases sp)
     (simp_all add: Step_body_def Let_def gpio_w1ts_def gpio_w1tc_def delayMicroseconds_def
        Step_auto_delays_eq)

lemma Step_body_shape:
  "\<exists>ph sh g tr. Step_body sp d a j st =
      st\<lparr>m_CurrentStepperPhase := ph, shaft := sh, gpio_out := g, trace := tr\<rparr>"
  by (subst Step_body_eq) blast

lemma Step_body_phase:
  "m_CurrentStepperPhase (Step_body sp d a j st) =
     (m_CurrentStepperPhase st + d) mod m_NumStepperPhases st"
  by (subst Step_body_eq) simp

lemma Step_body_frame:
  "m_NumStepperPhases (Step_body sp d a j st) = m_NumStepperPhases st"
  "m_InvertHome (Step_body sp d a j st) = m_InvertHome st"
  "step_calls (Step_body sp d a j st) = step_calls st"
  "shaft (Step_body sp d a j st) = shaft st + (if d = 1 then 1 else - 1)"
  by (subst Step_body_eq, simp)+

lemma Step_loop_shape:
  "\<exists>ph sh g tr. Step_loop sp d a j st =
      st\<lparr>m_CurrentStepperPhase := ph, shaft := sh, gpio_out := g, trace := tr\<rparr>"
proof (induction sp d a j st rule: Step_loop.induct)
  case (1 sp d a j st)
  show ?case
  proof (cases "word_sless j a")
    case True
    obtain ph sh g tr where b: "Step_body sp d a j st =
      st\<lparr>m_CurrentStepperPhase := ph, shaft := sh, gpio_out := g, trace := tr\<rparr>"
      using Step_body_shape by blast
    obtain ph' sh' g' tr' where l: "Step_loop sp d a (j + 1) (Step_body sp d a j st) =
      (Step_body sp d a j st)\<lparr>m_CurrentStepperPhase := ph', shaft := sh', gpio_out := g', trace := tr'\<rparr>"
      using 1 [OF True] by blast
    have "Step_loop sp d a j st = st\<lparr>m_CurrentStepperPhase := ph', shaft := sh', gpio_out := g', trace := tr'\<rparr>"
      using True l b by (simp add: Step_loop.simps [of sp d a j st])
    then show ?thesis by blast
  next
    case False
    then have "Step_loop sp d a j st = st\<lparr>m_CurrentStepperPhase := m_CurrentStepperPhase st,
        shaft := shaft st, gpio_out := gpio_out st, trace := trace st\<rparr>"
      by (simp add: Step_loop.simps [of sp d a j st])
    then show ?thesis by blast
  qed
qed

lemma Step_shape:
  "\<exists>ph sh g tr. Step n sp st =
      st\<lparr>m_CurrentStepperPhase := ph, shaft := sh, gpio_out := g, trace := tr,
         step_calls := step_calls st @ [(n, sp)]\<rparr>"
proof (cases "n = 0")
  case True
  then have "Step n sp st = st\<lparr>m_CurrentStepperPhase := m_CurrentStepperPhase st,
        shaft := shaft st, gpio_out := gpio_out st AND NOT (m_StepperClearMask st),
        trace := trace st @ [GpioClear (m_StepperClearMask st)],
        step_calls := step_calls st @ [(n, sp)]\<rparr>"
    by (simp add: Step_def gpio_w1tc_def Let_def)
  then show ?thesis by blast
next
  case False
  let ?st = "st\<lparr>step_calls := step_calls st @ [(n, sp)]\<rparr>"
  let ?d = "if word_sless 0 n then 1 else m_NumStepperPhases st - 1"
  obtain ph sh g tr where "Step_loop sp ?d (abs32 n) 0 ?st =
      ?st\<lparr>m_CurrentStepperPhase := ph, shaft := sh, gpio_out := g, trace := tr\<rparr>"
    using Step_loop_shape by blast
  then have "Step n sp st = st\<lparr>m_CurrentStepperPhase := ph, shaft := sh, gpio_out := g, trace := tr,
         step_calls := step_calls st @ [(n, sp)]\<rparr>"
    using False by (cases "word_sless 0 n") (simp_all add: Step_def Let_def)
  then show ?thesis by blast
qed

lemma Step_board_frame:
  fixes st :: "'a GenericClockBoard_scheme"
  shows "m_InvertHome (Step n sp st) = m_InvertHome st"
    and "m_NumStepperPhases (Step n sp st) = m_NumStepperPhases st"
    and "step_calls (Step n sp st) = step_calls st @ [(n, sp)]"
    and "m_StepperRapidDelayUs (Step n sp st) = m_StepperRapidDelayUs st"
    and "m_StepperClearMask (Step n sp st) = m_StepperClearMask st"
    and "m_StepperSequence (Step n sp st) = m_StepperSequence st"
    and "home_reads (Step n sp st) = home_reads st"
proof -
  obtain ph sh g tr where "Step n sp st =
      st\<lparr>m_CurrentStepperPhase := ph, shaft := sh, gpio_out := g, trace := tr,
         step_calls := step_calls st @ [(n, sp)]\<rparr>"
    using Step_shape by blast
  then show "m_InvertHome (Step n sp st) = m_InvertHome st"
    and "m_NumStepperPhases (Step n sp st) = m_NumStepperPhases st"
    and "step_calls (Step n sp st) = step_calls st @ [(n, sp)]"
    and "m_StepperRapidDelayUs (Step n sp st) = m_StepperRapidDelayUs st"
    and "m_StepperClearMask (Step n sp st) = m_StepperClearMask st"
    and "m_StepperSequence (Step n sp st) = m_StepperSequence st"
    and "home_reads (Step n sp st) = home_reads st"
    by simp_all
qed

lemma Step_frame:
  fixes st :: "'a GenevaClockMechanics_scheme"
  shows "m_LastStepperPos (Step n sp st) = m_LastStepperPos st"
    and "m_LastMinutes (Step n sp st) = m_LastMinutes st"
    and "m_StepsPerHour (Step n sp st) = m_StepsPerHour st"
    and "m_StepsPerCycle (Step n sp st) = m_StepsPerCycle st"
proof -
  obtain ph sh g tr where "Step n sp st =
      st\<lparr>m_CurrentStepperPhase := ph, shaft := sh, gpio_out := g, trace := tr,
         step_calls := step_calls st @ [(n, sp)]\<rparr>"
    using Step_shape by blast
  then show "m_LastStepperPos (Step n sp st) = m_LastStepperPos st"
    and "m_LastMinutes (Step n sp st) = m_LastMinutes st"
    and "m_StepsPerHour (Step n sp st) = m_StepsPerHour st"
    and "m_StepsPerCycle (Step n sp st) = m_StepsPerCycle st"
    by simp_all
qed

subsection \<open>The loop of Step as a fold over its indices\<close>

lemma abs32_sint:
  assumes "sint x \<noteq> - (2 ^ 31)"
  shows "sint (abs32 x) = \<bar>sint x\<bar>"
proof (cases "word_sless x 0")
  case True
  then have neg: "sint x < 0" by (simp add: word_sless_alt)
  have "- (2 ^ 31) \<le> sint x" using sint_ge [of x] by simp
  with assms have "- (2 ^ 31) < sint x" by simp
  with neg have "signed_take_bit 31 (- sint x) = - sint x"
    by (simp add: signed_take_bit_int_eq_self)
  then have "sint (- x) = - sint x" by (simp add: sint_word_ariths)
  with True neg show ?thesis by (simp add: abs32_def)
next
  case False
  then have "0 \<le> sint x" by (simp add: word_sless_alt)
  with False show ?thesis by (simp add: abs32_def)
qed

lemma Step_loop_fold:
  assumes "0 \<le> sint j"
  shows "Step_loop sp d a j st =
         fold (\<lambda>k. Step_body sp d a (word_of_nat k)) [nat (sint j)..<nat (sint a)] st"
  using assms
proof (induction sp d a j st rule: Step_loop.induct)
  case (1 sp d a j st)
  show ?case
  proof (cases "word_sless j a")
    case True
    then have lt: "sint j < sint a" by (simp add: word_sless_alt)
    have "sint a < 2 ^ 31" using sint_lt [of a] by simp
    with lt "1.prems" have "signed_take_bit 31 (sint j + 1) = sint j + 1"
      by (simp add: signed_take_bit_int_eq_self)
    then have sj: "sint (j + 1) = sint j + 1" by (simp add: sint_word_ariths)
    have jn: "word_of_nat (nat (sint j)) = j" using "1.prems" by simp
    have up: "[nat (sint j)..<nat (sint a)] = nat (sint j) # [nat (sint (j + 1))..<nat (sint a)]"
    proof -
      have "nat (sint j) < nat (sint a)" using lt "1.prems" by simp
      then have "[nat (sint j)..<nat (sint a)] = nat (sint j) # [Suc (nat (sint j))..<nat (sint a)]"
        by (rule upt_conv_Cons)
      moreover have "Suc (nat (sint j)) = nat (sint (j + 1))" using sj "1.prems" by simp
      ultimately show ?thesis by simp
    qed
    have "Step_loop sp d a j st = Step_loop sp d a (j + 1) (Step_body sp d a j st)"
      using True by (simp add: Step_loop.simps [of sp d a j st])
    also have "\<dots> = fold (\<lambda>k. Step_body sp d a (word_of_nat k))
                        [nat (sint (j + 1))..<nat (sint a)] (Step_body sp d a j st)"
      using "1.IH" [OF True] sj "1.prems" by simp
    finally show ?thesis using up jn by simp
  next
    case False
    then have "sint a \<le> sint j" by (simp add: word_sless_alt)
    then have "nat (sint a) \<le> nat (sint j)" by simp
    then have e: "fold (\<lambda>k. Step_body sp d a (word_of_nat k)) [nat (sint j)..<nat (sint a)] st = st"
      by simp
    have "Step_loop sp d a j st = st"
      using False by (simp add: Step_loop.simps [of sp d a j st])
    with e show ?thesis by simp
  qed
qed

lemma word_sless_of_nat_numeral:
  fixes a :: "32 word"
  assumes "0 \<le> sint a" "c < 2 ^ 31"
  shows "word_sless a (word_of_nat c) = (nat (sint a) < c)"
proof -
  have "sint (word_of_nat c :: 32 word) = int c"
    using assms(2) by (simp add: signed_of_nat signed_take_bit_int_eq_self)
  then show ?thesis using assms(1) by (simp add: word_sless_alt nat_less_iff)
qed

lemma Step_body_auto_trace:
  assumes j: "j < n" and n: "sint a = int n"
  shows "trace (Step_body StepAuto d a (word_of_nat j) st) =
           trace st @ GpioSet (m_StepperSequence st !
                 unat ((m_CurrentStepperPhase st + d) mod m_NumStepperPhases st))
             # replicate (spec_auto_units j n) (DelayUs (m_StepperRapidDelayUs st))
             @ [GpioClear (m_StepperClearMask st)]"
proof -
  have nlt: "int n < 2 ^ 31" using sint_lt [of a] n by simp
  then have jlt: "int j < 2 ^ 31" using j by simp
  have sj: "sint (word_of_nat j :: 32 word) = int j"
    using jlt by (simp add: signed_of_nat signed_take_bit_int_eq_self)
  have "sint (a - word_of_nat j) = signed_take_bit 31 (int n - int j)"
    using sj n by (simp add: sint_word_ariths)
  also have "\<dots> = int n - int j"
    using j nlt by (simp add: signed_take_bit_int_eq_self)
  finally have sd: "sint (a - word_of_nat j) = int (n - j)" using j by simp
  have c1: "\<And>c. c < 2 ^ 31 \<Longrightarrow> word_sless (word_of_nat j :: 32 word) (word_of_nat c) = (j < c)"
    using word_sless_of_nat_numeral [of "word_of_nat j"] sj by simp
  have c2: "\<And>c. c < 2 ^ 31 \<Longrightarrow> word_sless (a - word_of_nat j) (word_of_nat c) = (n - j < c)"
    using word_sless_of_nat_numeral [of "a - word_of_nat j"] sd by simp
  have j20: "word_sless (word_of_nat j :: 32 word) 20 = (j < 20)" using c1 [of 20] by simp
  have j10: "word_sless (word_of_nat j :: 32 word) 10 = (j < 10)" using c1 [of 10] by simp
  have j5: "word_sless (word_of_nat j :: 32 word) 5 = (j < 5)" using c1 [of 5] by simp
  have d20: "word_sless (a - word_of_nat j) 20 = (n - j < 20)" using c2 [of 20] by simp
  have d10: "word_sless (a - word_of_nat j) 10 = (n - j < 10)" using c2 [of 10] by simp
  have d5: "word_sless (a - word_of_nat j) 5 = (n - j < 5)" using c2 [of 5] by simp
  show ?thesis
    unfolding Step_body_eq Step_auto_delays_eq j20 j10 j5 d20 d10 d5
    by (simp add: spec_auto_units_def)
qed

lemma fold_body_shape:
  "\<exists>ph sh g tr. fold (\<lambda>k. Step_body sp d a (f k)) ks st =
      st\<lparr>m_CurrentStepperPhase := ph, shaft := sh, gpio_out := g, trace := tr\<rparr>"
proof (induction ks arbitrary: st)
  case Nil
  have "fold (\<lambda>k. Step_body sp d a (f k)) [] st = st\<lparr>m_CurrentStepperPhase := m_CurrentStepperPhase st,
        shaft := shaft st, gpio_out := gpio_out st, trace := trace st\<rparr>"
    by simp
  then show ?case by blast
next
  case (Cons k ks)
  obtain ph sh g tr where b: "Step_body sp d a (f k) st =
      st\<lparr>m_CurrentStepperPhase := ph, shaft := sh, gpio_out := g, trace := tr\<rparr>"
    using Step_body_shape by blast
  obtain ph' sh' g' tr' where l: "fold (\<lambda>k. Step_body sp d a (f k)) ks (Step_body sp d a (f k) st) =
      (Step_body sp d a (f k) st)\<lparr>m_CurrentStepperPhase := ph', shaft := sh', gpio_out := g', trace := tr'\<rparr>"
    using Cons.IH by blast
  have "fold (\<lambda>k. Step_body sp d a (f k)) (k # ks) st =
      st\<lparr>m_CurrentStepperPhase := ph', shaft := sh', gpio_out := g', trace := tr'\<rparr>"
    using l b by simp
  then show ?case by blast
qed

lemma fold_body_frame:
  "m_StepperRapidDelayUs (fold (\<lambda>k. Step_body sp d a (f k)) ks st) = m_StepperRapidDelayUs st"
  "m_StepperClearMask (fold (\<lambda>k. Step_body sp d a (f k)) ks st) = m_StepperClearMask st"
  "m_StepperSequence (fold (\<lambda>k. Step_body sp d a (f k)) ks st) = m_StepperSequence st"
  "m_NumStepperPhases (fold (\<lambda>k. Step_body sp d a (f k)) ks st) = m_NumStepperPhases st"
proof -
  obtain ph sh g tr where "fold (\<lambda>k. Step_body sp d a (f k)) ks st =
      st\<lparr>m_CurrentStepperPhase := ph, shaft := sh, gpio_out := g, trace := tr\<rparr>"
    using fold_body_shape by blast
  then show "m_StepperRapidDelayUs (fold (\<lambda>k. Step_body sp d a (f k)) ks st) = m_StepperRapidDelayUs st"
  "m_StepperClearMask (fold (\<lambda>k. Step_body sp d a (f k)) ks st) = m_StepperClearMask st"
  "m_StepperSequence (fold (\<lambda>k. Step_body sp d a (f k)) ks st) = m_StepperSequence st"
  "m_NumStepperPhases (fold (\<lambda>k. Step_body sp d a (f k)) ks st) = m_NumStepperPhases st"
    by simp_all
qed

lemma Step_as_fold:
  assumes "steps \<noteq> 0" and "sint steps \<noteq> - (2 ^ 31)"
  shows "Step steps speed st =
           fold (\<lambda>j. Step_body speed (if 0 < sint steps then 1 else m_NumStepperPhases st - 1)
                        (abs32 steps) (word_of_nat j))
             [0..<nat \<bar>sint steps\<bar>] (st\<lparr>step_calls := step_calls st @ [(steps, speed)]\<rparr>)"
proof -
  have a: "sint (abs32 steps) = \<bar>sint steps\<bar>" using assms(2) by (rule abs32_sint)
  have "Step_loop speed (if 0 < sint steps then 1 else m_NumStepperPhases st - 1) (abs32 steps) 0
          (st\<lparr>step_calls := step_calls st @ [(steps, speed)]\<rparr>) =
        fold (\<lambda>j. Step_body speed (if 0 < sint steps then 1 else m_NumStepperPhases st - 1)
                        (abs32 steps) (word_of_nat j))
             [nat (sint (0 :: 32 word))..<nat (sint (abs32 steps))]
             (st\<lparr>step_calls := step_calls st @ [(steps, speed)]\<rparr>)"
    by (rule Step_loop_fold) simp
  then show ?thesis using assms(1) a
    by (cases "0 < sint steps") (simp_all add: Step_def Let_def word_sless_alt)
qed

lemma Step_auto_trace_fold:
  fixes st0 :: "'a GenericClockBoard_scheme"
  assumes n: "sint a = int n" and k: "k \<le> n"
  shows "trace (fold (\<lambda>j. Step_body StepAuto d a (word_of_nat j)) [0..<k] st0) =
         trace st0 @ concat (map (\<lambda>j.
            GpioSet (m_StepperSequence st0 ! unat (m_CurrentStepperPhase
                       (fold (\<lambda>j. Step_body StepAuto d a (word_of_nat j)) [0..<Suc j] st0)))
            # replicate (spec_auto_units j n) (DelayUs (m_StepperRapidDelayUs st0))
            @ [GpioClear (m_StepperClearMask st0)]) [0..<k])"
proof -
  let ?b = "\<lambda>j. Step_body StepAuto d a (word_of_nat j)"
  define G where "G = (\<lambda>j.
            GpioSet (m_StepperSequence st0 ! unat (m_CurrentStepperPhase (fold ?b [0..<Suc j] st0)))
            # replicate (spec_auto_units j n) (DelayUs (m_StepperRapidDelayUs st0))
            @ [GpioClear (m_StepperClearMask st0)])"
  have "trace (fold ?b [0..<k] st0) = trace st0 @ concat (map G [0..<k])"
    using k
  proof (induction k)
    case 0
    then show ?case by simp
  next
    case (Suc k)
    let ?s = "fold ?b [0..<k] st0"
    have kn: "k < n" using Suc.prems by simp
    have f: "fold ?b [0..<Suc k] st0 = ?b k ?s" by simp
    have t: "trace (?b k ?s) = trace ?s @ GpioSet (m_StepperSequence ?s !
                   unat ((m_CurrentStepperPhase ?s + d) mod m_NumStepperPhases ?s))
               # replicate (spec_auto_units k n) (DelayUs (m_StepperRapidDelayUs ?s))
               @ [GpioClear (m_StepperClearMask ?s)]"
      using kn n by (rule Step_body_auto_trace)
    have p: "(m_CurrentStepperPhase ?s + d) mod m_NumStepperPhases ?s =
             m_CurrentStepperPhase (fold ?b [0..<Suc k] st0)"
      unfolding f by (simp only: Step_body_phase)
    have g: "GpioSet (m_StepperSequence ?s !
                   unat ((m_CurrentStepperPhase ?s + d) mod m_NumStepperPhases ?s))
               # replicate (spec_auto_units k n) (DelayUs (m_StepperRapidDelayUs ?s))
               @ [GpioClear (m_StepperClearMask ?s)] = G k"
      unfolding p G_def by (simp only: fold_body_frame)
    have ih: "trace ?s = trace st0 @ concat (map G [0..<k])"
      using Suc.IH kn by simp
    have "trace (fold ?b [0..<Suc k] st0) = (trace st0 @ concat (map G [0..<k])) @ G k"
      unfolding f t g ih by (rule refl)
    then show ?case by simp
  qed
  then show ?thesis unfolding G_def .
qed

subsection \<open>Iterations and direction\<close>

lemma board0_eq: "board0 = \<lparr>m_CurrentStepperPhase = 0, m_pStepperPins = [19, 16, 17, 21],
     m_NumStepperPhases = 8, m_StepperRapidDelayUs = 1953,
     m_StepperClearMask = 2818048,
     m_StepperSequence =
       [524288, 589824, 65536, 196608, 131072, 2228224, 2097152, 2621440],
     m_InvertHome = True, gpio_out = 0, trace = [], step_calls = [],
     shaft = 0, home_reads = 0\<rparr>"
  unfolding board0_def by code_simp

text \<open>
  Claim C6 as stated fails for one value: \<open>abs(INT32_MIN)\<close> does not fit in an
  \<open>int32_t\<close>.  On the two's complement target it wraps around to \<open>INT32_MIN\<close>, the
  loop condition \<open>0 < absSteps\<close> is false, and \<open>Step(INT32_MIN, speed)\<close> makes no
  iteration at all, where the magnitude of \<open>steps\<close> is \<open>2^31\<close>.
\<close>

theorem Step_int_min_makes_no_iteration:
  "(- 2147483648 :: 32 word) \<noteq> 0
   \<and> nat \<bar>sint (- 2147483648 :: 32 word)\<bar> = 2147483648
   \<and> abs32 (- 2147483648) = - 2147483648
   \<and> Step (- 2147483648) StepFast board0 = board0\<lparr>step_calls := [(- 2147483648, StepFast)]\<rparr>
   \<and> trace (Step (- 2147483648) StepFast board0) = []"
proof -
  have a: "abs32 (- 2147483648) = - 2147483648" by (simp add: abs32_def word_sless_alt)
  have s: "Step (- 2147483648) StepFast board0 = board0\<lparr>step_calls := [(- 2147483648, StepFast)]\<rparr>"
    by (simp add: Step_def Let_def a word_sless_alt Step_loop.simps board0_eq)
  show ?thesis unfolding s using a by (simp add: board0_eq)
qed

text \<open>
  Claim C6, amended.  For every nonzero \<open>steps\<close> other than \<open>INT32_MIN\<close>,
  \<open>Step(steps, speed)\<close> runs the loop body exactly \<open>|steps|\<close> times, for the indices
  \<open>0, ..., |steps| - 1\<close> in order.  The phase increment is 1 when \<open>steps\<close> is
  positive and \<open>m_NumStepperPhases - 1\<close> when it is negative, and every iteration
  replaces the phase index by (index + increment) modulo the number of phases.  So
  the sign of \<open>steps\<close> alone selects the direction and its magnitude alone the
  number of iterations.
\<close>

theorem Step_iterates_body:
  assumes "steps \<noteq> 0" and "sint steps \<noteq> - (2 ^ 31)"
  shows "Step steps speed st =
           fold (\<lambda>j. Step_body speed (if 0 < sint steps then 1 else m_NumStepperPhases st - 1)
                        (abs32 steps) (word_of_nat j))
             [0..<nat \<bar>sint steps\<bar>] (st\<lparr>step_calls := step_calls st @ [(steps, speed)]\<rparr>)
         \<and> (\<forall>delta absSteps j (s :: 'a GenericClockBoard_scheme).
               m_CurrentStepperPhase (Step_body speed delta absSteps j s) =
                 (m_CurrentStepperPhase s + delta) mod m_NumStepperPhases s
               \<and> m_NumStepperPhases (Step_body speed delta absSteps j s) = m_NumStepperPhases s)"
proof (intro conjI allI)
  show "Step steps speed st =
           fold (\<lambda>j. Step_body speed (if 0 < sint steps then 1 else m_NumStepperPhases st - 1)
                        (abs32 steps) (word_of_nat j))
             [0..<nat \<bar>sint steps\<bar>] (st\<lparr>step_calls := step_calls st @ [(steps, speed)]\<rparr>)"
    using assms by (rule Step_as_fold)
qed (rule Step_body_phase, rule Step_body_frame(1))

theorem Step_iterates_body_witness:
  "(- 3 :: 32 word) \<noteq> 0 \<and> sint (- 3 :: 32 word) \<noteq> - (2 ^ 31)
   \<and> Step (- 3) StepFast board0 =
        fold (\<lambda>j. Step_body StepFast 7 3 (word_of_nat j)) [0, 1, 2]
          (board0\<lparr>step_calls := [(- 3, StepFast)]\<rparr>)
   \<and> m_CurrentStepperPhase (Step (- 3) StepFast board0) = 5"
proof -
  have h1: "(- 3 :: 32 word) \<noteq> 0" by simp
  have h2: "sint (- 3 :: 32 word) \<noteq> - (2 ^ 31)" by simp
  have e: "Step (- 3) StepFast board0 =
        fold (\<lambda>j. Step_body StepFast 7 3 (word_of_nat j)) [0, 1, 2]
          (board0\<lparr>step_calls := [(- 3, StepFast)]\<rparr>)"
    using Step_iterates_body [OF h1 h2, of StepFast board0, THEN conjunct1]
    by (simp add: board0_eq abs32_def upt_rec word_sless_alt)
  have "m_CurrentStepperPhase (Step (- 3) StepFast board0) = 5"
    unfolding e by (simp add: board0_eq Step_body_phase Step_body_frame)
  with h1 h2 e show ?thesis by blast
qed

subsection \<open>The delays of the automatic speed\<close>

text \<open>
  Claim C5 as stated fails for the value for which claim C6 fails.  For
  \<open>INT32_MIN\<close> the magnitude \<open>n\<close> is \<open>2^31\<close>, and iteration 0 is to make
  \<open>spec_auto_units 0 n = 4\<close> rapid delays; but \<open>abs\<close> does not give \<open>2^31\<close>, the loop is
  not entered, and \<open>Step(INT32_MIN, StepAuto)\<close> makes no delay at all.  Nor would
  the claim hold if the loop were entered with that value of \<open>absSteps\<close>: the loop
  body for \<open>j = 0\<close> then makes 7 rapid delays, since \<open>absSteps - j\<close> is below all
  three thresholds of the deceleration.
\<close>

theorem Step_auto_int_min_makes_no_delay:
  "(- 2147483648 :: 32 word) \<noteq> 0
   \<and> nat \<bar>sint (- 2147483648 :: 32 word)\<bar> = 2147483648
   \<and> spec_auto_units 0 2147483648 = 4
   \<and> trace (Step (- 2147483648) StepAuto board0) = []
   \<and> abs32 (- 2147483648) = - 2147483648
   \<and> trace (Step_body StepAuto 7 (- 2147483648) 0 board0) =
       GpioSet 2621440 # replicate 7 (DelayUs 1953) @ [GpioClear 2818048]"
proof -
  have a: "abs32 (- 2147483648) = - 2147483648" by (simp add: abs32_def word_sless_alt)
  have s: "Step (- 2147483648) StepAuto board0 = board0\<lparr>step_calls := [(- 2147483648, StepAuto)]\<rparr>"
    by (simp add: Step_def Let_def a word_sless_alt Step_loop.simps board0_eq)
  have r: "replicate 7 x = [x, x, x, x, x, x, x]" for x :: event
    by (simp add: eval_nat_numeral)
  have b: "trace (Step_body StepAuto 7 (- 2147483648) 0 board0) =
       GpioSet 2621440 # replicate 7 (DelayUs 1953) @ [GpioClear 2818048]"
    unfolding r by (simp add: Step_body_eq Step_auto_delays_eq board0_eq word_sless_alt)
  have c: "(- 2147483648 :: 32 word) \<noteq> 0
   \<and> nat \<bar>sint (- 2147483648 :: 32 word)\<bar> = 2147483648
   \<and> spec_auto_units 0 2147483648 = 4
   \<and> trace (Step (- 2147483648) StepAuto board0) = []"
    unfolding s by (simp add: board0_eq spec_auto_units_def)
  show ?thesis using a b c by (intro conjI) simp_all
qed

text \<open>
  Claim C5, amended.  For every nonzero \<open>steps\<close> other than \<open>INT32_MIN\<close>, with
  \<open>n = |steps|\<close>, the events of \<open>Step(steps, StepAuto)\<close> are one group per iteration
  \<open>j = 0, ..., n - 1\<close>, in order: the phase pattern is set, then exactly
  \<open>spec_auto_units j n\<close> delays of the rapid per-step delay are made (one, plus one
  for each of the six thresholds that holds), then the phase outputs are cleared.
\<close>

theorem Step_auto_delay_profile:
  assumes "steps \<noteq> 0" and "sint steps \<noteq> - (2 ^ 31)"
  shows "\<exists>pat. trace (Step steps StepAuto st) =
           trace st @ concat (map (\<lambda>j.
              GpioSet (pat j)
              # replicate (spec_auto_units j (nat \<bar>sint steps\<bar>)) (DelayUs (m_StepperRapidDelayUs st))
              @ [GpioClear (m_StepperClearMask st)])
              [0..<nat \<bar>sint steps\<bar>])"
proof -
  let ?n = "nat \<bar>sint steps\<bar>"
  let ?d = "if 0 < sint steps then 1 else m_NumStepperPhases st - 1"
  let ?st0 = "st\<lparr>step_calls := step_calls st @ [(steps, StepAuto)]\<rparr>"
  let ?b = "\<lambda>j. Step_body StepAuto ?d (abs32 steps) (word_of_nat j)"
  have a: "sint (abs32 steps) = int ?n" using abs32_sint [OF assms(2)] by simp
  have "trace (fold ?b [0..<?n] ?st0) =
         trace ?st0 @ concat (map (\<lambda>j.
            GpioSet (m_StepperSequence ?st0 ! unat (m_CurrentStepperPhase (fold ?b [0..<Suc j] ?st0)))
            # replicate (spec_auto_units j ?n) (DelayUs (m_StepperRapidDelayUs ?st0))
            @ [GpioClear (m_StepperClearMask ?st0)]) [0..<?n])"
    using a by (rule Step_auto_trace_fold) simp
  then have "trace (Step steps StepAuto st) =
         trace st @ concat (map (\<lambda>j.
            GpioSet (m_StepperSequence st ! unat (m_CurrentStepperPhase (fold ?b [0..<Suc j] ?st0)))
            # replicate (spec_auto_units j ?n) (DelayUs (m_StepperRapidDelayUs st))
            @ [GpioClear (m_StepperClearMask st)])
            [0..<?n])"
    unfolding Step_as_fold [OF assms, of StepAuto st] by simp
  then show ?thesis
    by (rule exI [where x = "\<lambda>j. m_StepperSequence st !
          unat (m_CurrentStepperPhase (fold ?b [0..<Suc j] ?st0))"])
qed

theorem Step_auto_delay_profile_witness:
  "(25 :: 32 word) \<noteq> 0
   \<and> sint (25 :: 32 word) \<noteq> - (2 ^ 31)
   \<and> (\<exists>pat. trace (Step 25 StepAuto board0) =
           concat (map (\<lambda>j.
              GpioSet (pat j) # replicate (spec_auto_units j 25) (DelayUs 1953) @ [GpioClear 2818048])
              [0..<25]))
   \<and> map (\<lambda>j. spec_auto_units j 25) [0, 4, 5, 6, 12, 20, 21, 24] = [4, 4, 3, 4, 3, 3, 4, 4]"
proof -
  have h1: "(25 :: 32 word) \<noteq> 0" by simp
  have h2: "sint (25 :: 32 word) \<noteq> - (2 ^ 31)" by simp
  have n: "nat \<bar>sint (25 :: 32 word)\<bar> = 25" by simp
  have t: "trace board0 = []" and r: "m_StepperRapidDelayUs board0 = 1953"
    and m: "m_StepperClearMask board0 = 2818048"
    by (simp_all add: board0_eq)
  from Step_auto_delay_profile [OF h1 h2, of board0]
  obtain pat where "trace (Step 25 StepAuto board0) =
           trace board0 @ concat (map (\<lambda>j.
              GpioSet (pat j)
              # replicate (spec_auto_units j (nat \<bar>sint (25 :: 32 word)\<bar>))
                  (DelayUs (m_StepperRapidDelayUs board0))
              @ [GpioClear (m_StepperClearMask board0)])
              [0..<nat \<bar>sint (25 :: 32 word)\<bar>])"
    ..
  then have "trace (Step 25 StepAuto board0) =
           concat (map (\<lambda>j.
              GpioSet (pat j) # replicate (spec_auto_units j 25) (DelayUs 1953) @ [GpioClear 2818048])
              [0..<25])"
    unfolding n t r m by (simp only: append_Nil)
  then have e: "\<exists>pat. trace (Step 25 StepAuto board0) =
           concat (map (\<lambda>j.
              GpioSet (pat j) # replicate (spec_auto_units j 25) (DelayUs 1953) @ [GpioClear 2818048])
              [0..<25])"
    by (rule exI [where x = pat])
  have u: "map (\<lambda>j. spec_auto_units j 25) [0, 4, 5, 6, 12, 20, 21, 24] = [4, 4, 3, 4, 3, 3, 4, 4]"
    by (simp add: spec_auto_units_def)
  show ?thesis using h1 h2 e u by (intro conjI)
qed

subsection \<open>There and back\<close>






subsection \<open>A move of zero steps\<close>

text \<open>
  Claim C7.  For every state of the driver (so for four and for eight phases) and
  every speed, \<open>Step(0, speed)\<close> writes the clear mask to the write-one-to-clear
  register and returns: the phase output bits are all deasserted, no phase pattern
  is output and no delay is made, and the phase index and every other field of the
  driver keep their values (the call itself is recorded).
\<close>

theorem Step_zero_deasserts_only:
  "Step 0 speed st =
     st\<lparr>gpio_out := gpio_out st AND NOT (m_StepperClearMask st),
        trace := trace st @ [GpioClear (m_StepperClearMask st)],
        step_calls := step_calls st @ [(0, speed)]\<rparr>
   \<and> gpio_out (Step 0 speed st) AND m_StepperClearMask st = 0
   \<and> m_CurrentStepperPhase (Step 0 speed st) = m_CurrentStepperPhase st
   \<and> m_NumStepperPhases (Step 0 speed st) = m_NumStepperPhases st
   \<and> shaft (Step 0 speed st) = shaft st"
  by (simp add: Step_def gpio_w1tc_def Let_def and.assoc)

section \<open>Properties of Home\<close>

subsection \<open>The bounded loops\<close>

lemma unat_succ_below:
  fixes i N :: "32 word"
  assumes "i < N"
  shows "unat (i + 1) = Suc (unat i)"
proof -
  have "unat i < unat N" using assms by (simp add: word_less_nat_alt)
  moreover have "unat N < 2 ^ 32" using unsigned_less [of N] by simp
  ultimately show ?thesis by (simp add: unat_word_ariths)
qed

text \<open>A field that neither the condition nor the body writes is not written by the loop.\<close>

lemma for_loop_keeps:
  assumes "\<And>s. f (snd (c s)) = f s" and "\<And>s. f (b s) = f s"
  shows "f (snd (for_loop c b N i s)) = f s"
  using assms
proof (induction c b N i s rule: for_loop.induct)
  case (1 c b N i s)
  show ?case
  proof (cases "fst (c s) \<and> i < N")
    case True
    have "f (snd (for_loop c b N (i + 1) (b (snd (c s))))) = f (b (snd (c s)))"
      using True "1.prems" by (rule "1.IH")
    also have "\<dots> = f s" by (simp only: "1.prems")
    finally show ?thesis
      using True by (simp add: for_loop.simps [of c b N i s])
  next
    case False
    then have "for_loop c b N i s = (i, snd (c s))"
      by (auto simp add: for_loop.simps [of c b N i s])
    then show ?thesis by (simp add: "1.prems")
  qed
qed

text \<open>
  The loop that stops because its condition fails after \<open>m\<close> rounds, and the loop
  that uses up its bound; in both the condition is evaluated once more than the
  body.
\<close>

lemma for_loop_stop:
  assumes "\<forall>k<m. fst (c (((\<lambda>s. b (snd (c s))) ^^ k) s))"
    and "\<not> fst (c (((\<lambda>s. b (snd (c s))) ^^ m) s))"
    and "unat i + m \<le> unat N"
  shows "for_loop c b N i s = (i + word_of_nat m, snd (c (((\<lambda>s. b (snd (c s))) ^^ m) s)))"
  using assms
proof (induction m arbitrary: i s)
  case 0
  then show ?case by (simp add: for_loop.simps [of c b N i s])
next
  case (Suc m)
  let ?g = "\<lambda>s. b (snd (c s))"
  have c0: "fst (c s)" using Suc.prems(1) by force
  have lt: "i < N" using Suc.prems(3) by (simp add: word_less_nat_alt)
  have u: "unat (i + 1) = Suc (unat i)" using lt by (rule unat_succ_below)
  have e: "(?g ^^ Suc k) s = (?g ^^ k) (?g s)" for k
    by (simp only: funpow_Suc_right o_apply)
  have "for_loop c b N (i + 1) (?g s) = (i + 1 + word_of_nat m, snd (c ((?g ^^ m) (?g s))))"
  proof (rule Suc.IH)
    show "\<forall>k<m. fst (c ((?g ^^ k) (?g s)))"
    proof (intro allI impI)
      fix k assume "k < m"
      then have "Suc k < Suc m" by simp
      then have "fst (c ((?g ^^ Suc k) s))" using Suc.prems(1) by blast
      then show "fst (c ((?g ^^ k) (?g s)))" unfolding e .
    qed
    show "\<not> fst (c ((?g ^^ m) (?g s)))" using Suc.prems(2) unfolding e .
    show "unat (i + 1) + m \<le> unat N" using Suc.prems(3) u by simp
  qed
  then show ?case
    using c0 lt e [of m] by (simp add: for_loop.simps [of c b N i s] del: funpow.simps)
qed

lemma for_loop_exhaust:
  assumes "\<forall>k<m. fst (c (((\<lambda>s. b (snd (c s))) ^^ k) s))" and "unat i + m = unat N"
  shows "for_loop c b N i s = (N, snd (c (((\<lambda>s. b (snd (c s))) ^^ m) s)))"
  using assms
proof (induction m arbitrary: i s)
  case 0
  then have "i = N" by (simp add: word_unat_eq_iff)
  then show ?case by (simp add: for_loop.simps [of c b N N s])
next
  case (Suc m)
  let ?g = "\<lambda>s. b (snd (c s))"
  have c0: "fst (c s)" using Suc.prems(1) by force
  have lt: "i < N" using Suc.prems(2) by (simp add: word_less_nat_alt)
  have u: "unat (i + 1) = Suc (unat i)" using lt by (rule unat_succ_below)
  have e: "(?g ^^ Suc k) s = (?g ^^ k) (?g s)" for k
    by (simp only: funpow_Suc_right o_apply)
  have "for_loop c b N (i + 1) (?g s) = (N, snd (c ((?g ^^ m) (?g s))))"
  proof (rule Suc.IH)
    show "\<forall>k<m. fst (c ((?g ^^ k) (?g s)))"
    proof (intro allI impI)
      fix k assume "k < m"
      then have "Suc k < Suc m" by simp
      then have "fst (c ((?g ^^ Suc k) s))" using Suc.prems(1) by blast
      then show "fst (c ((?g ^^ k) (?g s)))" unfolding e .
    qed
    show "unat (i + 1) + m = unat N" using Suc.prems(2) u by simp
  qed
  then show ?case
    using c0 lt e [of m] by (simp add: for_loop.simps [of c b N i s] del: funpow.simps)
qed

subsection \<open>Reading the pin and making one step\<close>

lemma IsHome_fst:
  "fst (IsHome hh st) = (hh (home_reads st) (shaft st) \<noteq> m_InvertHome st)"
  "fst (not_IsHome hh st) = (\<not> (hh (home_reads st) (shaft st) \<noteq> m_InvertHome st))"
  by (simp_all add: IsHome_def not_IsHome_def)

lemma IsHome_snd:
  "snd (IsHome hh st) = st\<lparr>home_reads := Suc (home_reads st)\<rparr>"
  "snd (not_IsHome hh st) = st\<lparr>home_reads := Suc (home_reads st)\<rparr>"
  by (simp_all add: IsHome_def not_IsHome_def)

lemma round_is_read_step:
  "(\<lambda>s. Step d sp (snd (IsHome hh s))) = read_step d sp"
  "(\<lambda>s. Step d sp (snd (not_IsHome hh s))) = read_step d sp"
  by (simp_all add: fun_eq_iff IsHome_snd read_step_def)

lemma IsHome_frame:
  fixes st :: "'a GenevaClockMechanics_scheme"
  shows "m_LastStepperPos (snd (IsHome hh st)) = m_LastStepperPos st"
    and "m_LastMinutes (snd (IsHome hh st)) = m_LastMinutes st"
    and "m_StepsPerHour (snd (IsHome hh st)) = m_StepsPerHour st"
    and "m_StepsPerCycle (snd (IsHome hh st)) = m_StepsPerCycle st"
    and "m_LastStepperPos (snd (not_IsHome hh st)) = m_LastStepperPos st"
    and "m_LastMinutes (snd (not_IsHome hh st)) = m_LastMinutes st"
    and "m_StepsPerHour (snd (not_IsHome hh st)) = m_StepsPerHour st"
    and "m_StepsPerCycle (snd (not_IsHome hh st)) = m_StepsPerCycle st"
  by (simp_all add: IsHome_snd)

lemma IsHome_board_frame:
  fixes st :: "'a GenericClockBoard_scheme"
  shows "shaft (snd (IsHome hh st)) = shaft st"
    and "home_reads (snd (IsHome hh st)) = Suc (home_reads st)"
    and "m_InvertHome (snd (IsHome hh st)) = m_InvertHome st"
    and "m_NumStepperPhases (snd (IsHome hh st)) = m_NumStepperPhases st"
  by (simp_all add: IsHome_snd)

lemma Step_unit_shaft:
  fixes st :: "'a GenericClockBoard_scheme"
  shows "shaft (Step STEP_CW sp st) = shaft st + 1"
    and "m_NumStepperPhases st \<noteq> 2 \<Longrightarrow> shaft (Step STEP_CCW sp st) = shaft st - 1"
proof -
  have a: "(1 :: 32 word) \<noteq> 0" "sint (1 :: 32 word) \<noteq> - (2 ^ 31)" by simp_all
  have b: "(- 1 :: 32 word) \<noteq> 0" "sint (- 1 :: 32 word) \<noteq> - (2 ^ 31)" by simp_all
  show "shaft (Step STEP_CW sp st) = shaft st + 1"
    unfolding STEP_CW_def Step_as_fold [OF a] by (simp add: Step_body_frame)
  assume "m_NumStepperPhases st \<noteq> 2"
  then have "m_NumStepperPhases st - 1 \<noteq> 1" by (metis add.commute diff_add_cancel one_add_one)
  then show "shaft (Step STEP_CCW sp st) = shaft st - 1"
    unfolding STEP_CCW_def Step_as_fold [OF b] by (simp add: Step_body_frame)
qed

lemma read_step_frame:
  fixes st :: "'a GenevaClockMechanics_scheme"
  shows "m_LastStepperPos (read_step d sp st) = m_LastStepperPos st"
    and "m_LastMinutes (read_step d sp st) = m_LastMinutes st"
    and "m_StepsPerHour (read_step d sp st) = m_StepsPerHour st"
    and "m_StepsPerCycle (read_step d sp st) = m_StepsPerCycle st"
  by (simp_all add: read_step_def Step_frame)

lemma read_step_board_frame:
  fixes st :: "'a GenericClockBoard_scheme"
  shows "m_InvertHome (read_step d sp st) = m_InvertHome st"
    and "m_NumStepperPhases (read_step d sp st) = m_NumStepperPhases st"
    and "home_reads (read_step d sp st) = Suc (home_reads st)"
  by (simp_all add: read_step_def Step_board_frame)

lemma read_step_shaft:
  fixes st :: "'a GenericClockBoard_scheme"
  shows "shaft (read_step STEP_CW sp st) = shaft st + 1"
    and "m_NumStepperPhases st \<noteq> 2 \<Longrightarrow> shaft (read_step STEP_CCW sp st) = shaft st - 1"
  by (simp_all add: read_step_def Step_unit_shaft)

lemma funpow_read_step_frame:
  fixes st :: "'a GenevaClockMechanics_scheme"
  shows "m_LastStepperPos ((read_step d sp ^^ m) st) = m_LastStepperPos st"
    and "m_LastMinutes ((read_step d sp ^^ m) st) = m_LastMinutes st"
    and "m_StepsPerHour ((read_step d sp ^^ m) st) = m_StepsPerHour st"
    and "m_StepsPerCycle ((read_step d sp ^^ m) st) = m_StepsPerCycle st"
  by (induction m) (simp_all add: read_step_frame)

lemma funpow_read_step_board_frame:
  fixes st :: "'a GenericClockBoard_scheme"
  shows "m_InvertHome ((read_step d sp ^^ m) st) = m_InvertHome st"
    and "m_NumStepperPhases ((read_step d sp ^^ m) st) = m_NumStepperPhases st"
    and "home_reads ((read_step d sp ^^ m) st) = home_reads st + m"
  by (induction m) (simp_all add: read_step_board_frame)

lemma funpow_read_step_shaft:
  fixes st :: "'a GenericClockBoard_scheme"
  shows "shaft ((read_step STEP_CW sp ^^ m) st) = shaft st + int m"
    and "m_NumStepperPhases st \<noteq> 2 \<Longrightarrow> shaft ((read_step STEP_CCW sp ^^ m) st) = shaft st - int m"
proof -
  show "shaft ((read_step STEP_CW sp ^^ m) st) = shaft st + int m"
    by (induction m) (simp_all add: read_step_shaft)
  assume P: "m_NumStepperPhases st \<noteq> 2"
  show "shaft ((read_step STEP_CCW sp ^^ m) st) = shaft st - int m"
  proof (induction m)
    case 0
    show ?case by simp
  next
    case (Suc m)
    have "m_NumStepperPhases ((read_step STEP_CCW sp ^^ m) st) \<noteq> 2"
      using P by (simp add: funpow_read_step_board_frame)
    then show ?case using Suc by (simp add: read_step_shaft)
  qed
qed

text \<open>
  The reading that the loop condition takes after \<open>k\<close> rounds: read number
  \<open>home_reads st + k\<close>, with the shaft \<open>k\<close> steps further.
\<close>

lemma IsHome_funpow_CW:
  fixes st :: "'a GenericClockBoard_scheme"
  shows "fst (IsHome hh ((read_step STEP_CW sp ^^ k) st)) =
           (hh (home_reads st + k) (shaft st + int k) \<noteq> m_InvertHome st)"
  by (simp add: IsHome_fst funpow_read_step_shaft funpow_read_step_board_frame)

lemma IsHome_funpow_CCW:
  fixes st :: "'a GenericClockBoard_scheme"
  assumes "m_NumStepperPhases st \<noteq> 2"
  shows "fst (IsHome hh ((read_step STEP_CCW sp ^^ k) st)) =
           (hh (home_reads st + k) (shaft st - int k) \<noteq> m_InvertHome st)"
  using assms by (simp add: IsHome_fst funpow_read_step_shaft funpow_read_step_board_frame)

lemma unat_of_nat32:
  assumes "k \<le> unat (N :: 32 word)"
  shows "unat (word_of_nat k :: 32 word) = k"
proof -
  have "unat N < 2 ^ 32" using unsigned_less [of N] by simp
  with assms have "k < 2 ^ 32" by simp
  then show ?thesis by (simp add: unat_of_nat)
qed

subsection \<open>One loop against given readings\<close>

text \<open>
  The clockwise loops (phases 1 and 3) run while the pin reads inactive, the
  counterclockwise loop (phase 2) while it reads active.  The state after a loop
  of \<open>m\<close> rounds is \<open>m\<close> times \<open>read_step\<close> and one more read.
\<close>

lemma loop_CW_found:
  fixes st :: "'a GenericClockBoard_scheme"
  assumes "\<forall>k<m. \<not> (hh (home_reads st + k) (shaft st + int k) \<noteq> m_InvertHome st)"
    and "hh (home_reads st + m) (shaft st + int m) \<noteq> m_InvertHome st"
    and "m < unat N"
  shows "for_loop (not_IsHome hh) (Step STEP_CW sp) N 0 st =
           (word_of_nat m, snd (IsHome hh ((read_step STEP_CW sp ^^ m) st)))"
    and "\<not> N \<le> word_of_nat m"
proof -
  let ?c = "not_IsHome hh" and ?b = "Step STEP_CW sp"
  have "for_loop ?c ?b N 0 st =
          (0 + word_of_nat m, snd (?c (((\<lambda>s. ?b (snd (?c s))) ^^ m) st)))"
  proof (rule for_loop_stop)
    show "\<forall>k<m. fst (?c (((\<lambda>s. ?b (snd (?c s))) ^^ k) st))"
      unfolding round_is_read_step using assms(1)
      by (simp add: IsHome_fst funpow_read_step_shaft funpow_read_step_board_frame)
    show "\<not> fst (?c (((\<lambda>s. ?b (snd (?c s))) ^^ m) st))"
      unfolding round_is_read_step using assms(2)
      by (simp add: IsHome_fst funpow_read_step_shaft funpow_read_step_board_frame)
    show "unat (0 :: 32 word) + m \<le> unat N" using assms(3) by simp
  qed
  then show "for_loop ?c ?b N 0 st =
           (word_of_nat m, snd (IsHome hh ((read_step STEP_CW sp ^^ m) st)))"
    unfolding round_is_read_step by (simp add: IsHome_snd)
  have "unat (word_of_nat m :: 32 word) = m"
    using assms(3) by (intro unat_of_nat32 [of _ N]) simp
  then show "\<not> N \<le> word_of_nat m"
    using assms(3) by (simp add: word_le_nat_alt)
qed

lemma loop_CW_exhaust:
  fixes st :: "'a GenericClockBoard_scheme"
  assumes "\<forall>k<unat N. \<not> (hh (home_reads st + k) (shaft st + int k) \<noteq> m_InvertHome st)"
  shows "for_loop (not_IsHome hh) (Step STEP_CW sp) N 0 st =
           (N, snd (IsHome hh ((read_step STEP_CW sp ^^ unat N) st)))"
proof -
  let ?c = "not_IsHome hh" and ?b = "Step STEP_CW sp"
  have "for_loop ?c ?b N 0 st = (N, snd (?c (((\<lambda>s. ?b (snd (?c s))) ^^ unat N) st)))"
  proof (rule for_loop_exhaust)
    show "\<forall>k<unat N. fst (?c (((\<lambda>s. ?b (snd (?c s))) ^^ k) st))"
      unfolding round_is_read_step using assms
      by (simp add: IsHome_fst funpow_read_step_shaft funpow_read_step_board_frame)
    show "unat (0 :: 32 word) + unat N = unat N" by simp
  qed
  then show ?thesis unfolding round_is_read_step by (simp add: IsHome_snd)
qed

lemma loop_CCW_found:
  fixes st :: "'a GenericClockBoard_scheme"
  assumes "m_NumStepperPhases st \<noteq> 2"
    and "\<forall>k<m. hh (home_reads st + k) (shaft st - int k) \<noteq> m_InvertHome st"
    and "\<not> (hh (home_reads st + m) (shaft st - int m) \<noteq> m_InvertHome st)"
    and "m < unat N"
  shows "for_loop (IsHome hh) (Step STEP_CCW sp) N 0 st =
           (word_of_nat m, snd (IsHome hh ((read_step STEP_CCW sp ^^ m) st)))"
    and "\<not> N \<le> word_of_nat m"
proof -
  let ?c = "IsHome hh" and ?b = "Step STEP_CCW sp"
  have "for_loop ?c ?b N 0 st =
          (0 + word_of_nat m, snd (?c (((\<lambda>s. ?b (snd (?c s))) ^^ m) st)))"
  proof (rule for_loop_stop)
    show "\<forall>k<m. fst (?c (((\<lambda>s. ?b (snd (?c s))) ^^ k) st))"
      unfolding round_is_read_step using assms(2)
      by (simp add: IsHome_funpow_CCW [OF assms(1)])
    show "\<not> fst (?c (((\<lambda>s. ?b (snd (?c s))) ^^ m) st))"
      unfolding round_is_read_step using assms(3)
      by (simp add: IsHome_funpow_CCW [OF assms(1)])
    show "unat (0 :: 32 word) + m \<le> unat N" using assms(4) by simp
  qed
  then show "for_loop ?c ?b N 0 st =
           (word_of_nat m, snd (IsHome hh ((read_step STEP_CCW sp ^^ m) st)))"
    unfolding round_is_read_step by simp
  have "unat (word_of_nat m :: 32 word) = m"
    using assms(4) by (intro unat_of_nat32 [of _ N]) simp
  then show "\<not> N \<le> word_of_nat m"
    using assms(4) by (simp add: word_le_nat_alt)
qed

lemma loop_CCW_exhaust:
  fixes st :: "'a GenericClockBoard_scheme"
  assumes "m_NumStepperPhases st \<noteq> 2"
    and "\<forall>k<unat N. hh (home_reads st + k) (shaft st - int k) \<noteq> m_InvertHome st"
  shows "for_loop (IsHome hh) (Step STEP_CCW sp) N 0 st =
           (N, snd (IsHome hh ((read_step STEP_CCW sp ^^ unat N) st)))"
proof -
  let ?c = "IsHome hh" and ?b = "Step STEP_CCW sp"
  have "for_loop ?c ?b N 0 st = (N, snd (?c (((\<lambda>s. ?b (snd (?c s))) ^^ unat N) st)))"
  proof (rule for_loop_exhaust)
    show "\<forall>k<unat N. fst (?c (((\<lambda>s. ?b (snd (?c s))) ^^ k) st))"
      unfolding round_is_read_step using assms(2)
      by (simp add: IsHome_funpow_CCW [OF assms(1)])
    show "unat (0 :: 32 word) + unat N = unat N" by simp
  qed
  then show ?thesis unfolding round_is_read_step by simp
qed

text \<open>The state in which a loop of \<open>m\<close> rounds leaves the driver.\<close>

lemma after_loop_board:
  fixes st :: "'a GenericClockBoard_scheme"
  shows "home_reads (snd (IsHome hh ((read_step d sp ^^ m) st))) = home_reads st + m + 1"
    and "m_InvertHome (snd (IsHome hh ((read_step d sp ^^ m) st))) = m_InvertHome st"
    and "m_NumStepperPhases (snd (IsHome hh ((read_step d sp ^^ m) st))) = m_NumStepperPhases st"
    and "shaft (snd (IsHome hh ((read_step STEP_CW sp ^^ m) st))) = shaft st + int m"
    and "m_NumStepperPhases st \<noteq> 2 \<Longrightarrow>
         shaft (snd (IsHome hh ((read_step STEP_CCW sp ^^ m) st))) = shaft st - int m"
  by (simp_all add: IsHome_board_frame funpow_read_step_board_frame funpow_read_step_shaft)

lemma after_loop_frame:
  fixes st :: "'a GenevaClockMechanics_scheme"
  shows "m_LastStepperPos (snd (IsHome hh ((read_step d sp ^^ m) st))) = m_LastStepperPos st"
    and "m_LastMinutes (snd (IsHome hh ((read_step d sp ^^ m) st))) = m_LastMinutes st"
    and "m_StepsPerHour (snd (IsHome hh ((read_step d sp ^^ m) st))) = m_StepsPerHour st"
    and "m_StepsPerCycle (snd (IsHome hh ((read_step d sp ^^ m) st))) = m_StepsPerCycle st"
  by (simp_all add: IsHome_frame funpow_read_step_frame)

subsection \<open>The three phases against given readings\<close>

text \<open>
  The readings are arbitrary: \<open>hh k p\<close> is the level of read \<open>k\<close> when the shaft is
  at step \<open>p\<close>.  Phase 1 takes the reads from \<open>home_reads st\<close> on and stops at the
  first active one, after \<open>k1\<close> steps; phase 2 takes the next reads and stops at
  the first inactive one, after \<open>k2\<close> steps back; phase 3 takes the reads after
  those and stops at the first active one, after \<open>k3\<close> steps.
\<close>

lemma Home_phase1_error:
  assumes "\<forall>k<unat (m_StepsPerCycle st + m_StepsPerHour st).
              \<not> (hh (home_reads st + k) (shaft st + int k) \<noteq> m_InvertHome st)"
  shows "Home hh st = (StatusHomePhase1Error,
           snd (IsHome hh ((read_step STEP_CW StepFast
                  ^^ unat (m_StepsPerCycle st + m_StepsPerHour st)) st)))"
proof -
  let ?MAX = "m_StepsPerCycle st + m_StepsPerHour st"
  have "for_loop (not_IsHome hh) (Step STEP_CW StepFast) ?MAX 0 st =
          (?MAX, snd (IsHome hh ((read_step STEP_CW StepFast ^^ unat ?MAX) st)))"
    using assms by (rule loop_CW_exhaust)
  then show ?thesis by (simp add: Home_def Let_def)
qed

lemma Home_phase1_error_iff:
  "fst (Home hh st) = StatusHomePhase1Error \<longleftrightarrow>
     (\<forall>k<unat (m_StepsPerCycle st + m_StepsPerHour st).
        \<not> (hh (home_reads st + k) (shaft st + int k) \<noteq> m_InvertHome st))"
proof
  let ?MAX = "m_StepsPerCycle st + m_StepsPerHour st"
  assume e: "fst (Home hh st) = StatusHomePhase1Error"
  show "\<forall>k<unat ?MAX. \<not> (hh (home_reads st + k) (shaft st + int k) \<noteq> m_InvertHome st)"
  proof (rule ccontr)
    assume "\<not> (\<forall>k<unat ?MAX.
          \<not> (hh (home_reads st + k) (shaft st + int k) \<noteq> m_InvertHome st))"
    then obtain k where k: "k < unat ?MAX"
      "hh (home_reads st + k) (shaft st + int k) \<noteq> m_InvertHome st" by blast
    define k1 where "k1 = (LEAST k. hh (home_reads st + k) (shaft st + int k) \<noteq> m_InvertHome st)"
    have a: "hh (home_reads st + k1) (shaft st + int k1) \<noteq> m_InvertHome st"
      unfolding k1_def using k(2) by (rule LeastI)
    have "k1 \<le> k" unfolding k1_def using k(2) by (rule Least_le)
    then have lt: "k1 < unat ?MAX" using k(1) by simp
    have n: "\<forall>j<k1. \<not> (hh (home_reads st + j) (shaft st + int j) \<noteq> m_InvertHome st)"
      unfolding k1_def using not_less_Least by blast
    have "fst (Home hh st) \<noteq> StatusHomePhase1Error"
      unfolding Home_def Let_def loop_CW_found(1) [OF n a lt] prod.case
      using loop_CW_found(2) [OF n a lt]
      by (simp split: prod.splits)
    with e show False by simp
  qed
next
  assume "\<forall>k<unat (m_StepsPerCycle st + m_StepsPerHour st).
          \<not> (hh (home_reads st + k) (shaft st + int k) \<noteq> m_InvertHome st)"
  then show "fst (Home hh st) = StatusHomePhase1Error"
    by (simp only: Home_phase1_error fst_conv)
qed

lemma Home_phase2_error:
  assumes P: "m_NumStepperPhases st \<noteq> 2"
    and n1: "\<forall>k<k1. \<not> (hh (home_reads st + k) (shaft st + int k) \<noteq> m_InvertHome st)"
    and a1: "hh (home_reads st + k1) (shaft st + int k1) \<noteq> m_InvertHome st"
    and lt1: "k1 < unat (m_StepsPerCycle st + m_StepsPerHour st)"
    and a2: "\<forall>k<unat (m_StepsPerHour st).
               hh (home_reads st + k1 + 1 + k) (shaft st + int k1 - int k) \<noteq> m_InvertHome st"
  shows "fst (Home hh st) = StatusHomePhase2Error"
proof -
  let ?H = "m_StepsPerHour st"
  let ?s1 = "snd (IsHome hh ((read_step STEP_CW StepFast ^^ k1) st))"
  have h1: "m_StepsPerHour ?s1 = ?H" by (rule after_loop_frame)
  have P1: "m_NumStepperPhases ?s1 \<noteq> 2" unfolding after_loop_board(3) by (rule P)
  have r1: "home_reads ?s1 = home_reads st + k1 + 1" by (rule after_loop_board)
  have sh1: "shaft ?s1 = shaft st + int k1" by (rule after_loop_board)
  have inv1: "m_InvertHome ?s1 = m_InvertHome st" by (rule after_loop_board)
  have a2': "\<forall>k<unat ?H. hh (home_reads ?s1 + k) (shaft ?s1 - int k) \<noteq> m_InvertHome ?s1"
    unfolding r1 sh1 inv1 by (rule a2)
  have l2: "for_loop (IsHome hh) (Step STEP_CCW StepFast) ?H 0 ?s1 =
          (?H, snd (IsHome hh ((read_step STEP_CCW StepFast ^^ unat ?H) ?s1)))"
    using P1 a2' by (rule loop_CCW_exhaust)
  show ?thesis
    unfolding Home_def Let_def loop_CW_found(1) [OF n1 a1 lt1] prod.case h1 l2
    using loop_CW_found(2) [OF n1 a1 lt1]
    by (simp add: after_loop_frame)
qed

text \<open>\<open>Home\<close> after two phases that found what they looked for: the third loop is left.\<close>

lemma Home_phases_1_2:
  assumes P: "m_NumStepperPhases st \<noteq> 2"
    and n1: "\<forall>k<k1. \<not> (hh (home_reads st + k) (shaft st + int k) \<noteq> m_InvertHome st)"
    and a1: "hh (home_reads st + k1) (shaft st + int k1) \<noteq> m_InvertHome st"
    and lt1: "k1 < unat (m_StepsPerCycle st + m_StepsPerHour st)"
    and a2: "\<forall>k<k2. hh (home_reads st + k1 + 1 + k) (shaft st + int k1 - int k) \<noteq> m_InvertHome st"
    and n2: "\<not> (hh (home_reads st + k1 + 1 + k2) (shaft st + int k1 - int k2) \<noteq> m_InvertHome st)"
    and lt2: "k2 < unat (m_StepsPerHour st)"
    and s2: "s2 = snd (IsHome hh ((read_step STEP_CCW StepFast ^^ k2)
                   (snd (IsHome hh ((read_step STEP_CW StepFast ^^ k1) st)))))"
  shows "Home hh st =
          (case for_loop (not_IsHome hh) (Step STEP_CW StepSlow) (m_StepsPerHour st) 0 s2 of
             (i3, st3) \<Rightarrow>
               if m_StepsPerHour st3 \<le> i3 then (StatusHomePhase3Error, st3)
               else (StatusSuccess, st3\<lparr>m_LastStepperPos := 0, m_LastMinutes := 0\<rparr>))"
    and "home_reads s2 = home_reads st + k1 + 1 + k2 + 1"
    and "shaft s2 = shaft st + int k1 - int k2"
    and "m_InvertHome s2 = m_InvertHome st"
    and "m_StepsPerHour s2 = m_StepsPerHour st"
    and "m_StepsPerCycle s2 = m_StepsPerCycle st"
proof -
  let ?H = "m_StepsPerHour st"
  let ?s1 = "snd (IsHome hh ((read_step STEP_CW StepFast ^^ k1) st))"
  have h1: "m_StepsPerHour ?s1 = ?H" by (rule after_loop_frame)
  have P1: "m_NumStepperPhases ?s1 \<noteq> 2" unfolding after_loop_board(3) by (rule P)
  have r1: "home_reads ?s1 = home_reads st + k1 + 1" by (rule after_loop_board)
  have sh1: "shaft ?s1 = shaft st + int k1" by (rule after_loop_board)
  have inv1: "m_InvertHome ?s1 = m_InvertHome st" by (rule after_loop_board)
  have c1: "m_StepsPerCycle ?s1 = m_StepsPerCycle st" by (rule after_loop_frame)
  have a2': "\<forall>k<k2. hh (home_reads ?s1 + k) (shaft ?s1 - int k) \<noteq> m_InvertHome ?s1"
    unfolding r1 sh1 inv1 by (rule a2)
  have n2': "\<not> (hh (home_reads ?s1 + k2) (shaft ?s1 - int k2) \<noteq> m_InvertHome ?s1)"
    unfolding r1 sh1 inv1 by (rule n2)
  have l2: "for_loop (IsHome hh) (Step STEP_CCW StepFast) ?H 0 ?s1 = (word_of_nat k2, s2)"
    unfolding s2 using P1 a2' n2' lt2 by (rule loop_CCW_found(1))
  have g2: "\<not> ?H \<le> word_of_nat k2"
    using P1 a2' n2' lt2 by (rule loop_CCW_found(2))
  show "m_StepsPerHour s2 = ?H" unfolding s2 by (simp only: after_loop_frame)
  then have h2: "m_StepsPerHour s2 = ?H" .
  show "home_reads s2 = home_reads st + k1 + 1 + k2 + 1"
    unfolding s2 by (simp only: after_loop_board)
  show "shaft s2 = shaft st + int k1 - int k2"
    unfolding s2 by (simp only: after_loop_board(5) [OF P1] sh1)
  show "m_InvertHome s2 = m_InvertHome st" unfolding s2 by (simp only: after_loop_board)
  show "m_StepsPerCycle s2 = m_StepsPerCycle st" unfolding s2 by (simp only: after_loop_frame)
  show "Home hh st =
          (case for_loop (not_IsHome hh) (Step STEP_CW StepSlow) ?H 0 s2 of
             (i3, st3) \<Rightarrow>
               if m_StepsPerHour st3 \<le> i3 then (StatusHomePhase3Error, st3)
               else (StatusSuccess, st3\<lparr>m_LastStepperPos := 0, m_LastMinutes := 0\<rparr>))"
    unfolding Home_def Let_def loop_CW_found(1) [OF n1 a1 lt1] prod.case h1 l2 h2
    using loop_CW_found(2) [OF n1 a1 lt1] g2
    by simp
qed

lemma Home_phase3_error:
  assumes P: "m_NumStepperPhases st \<noteq> 2"
    and n1: "\<forall>k<k1. \<not> (hh (home_reads st + k) (shaft st + int k) \<noteq> m_InvertHome st)"
    and a1: "hh (home_reads st + k1) (shaft st + int k1) \<noteq> m_InvertHome st"
    and lt1: "k1 < unat (m_StepsPerCycle st + m_StepsPerHour st)"
    and a2: "\<forall>k<k2. hh (home_reads st + k1 + 1 + k) (shaft st + int k1 - int k) \<noteq> m_InvertHome st"
    and n2: "\<not> (hh (home_reads st + k1 + 1 + k2) (shaft st + int k1 - int k2) \<noteq> m_InvertHome st)"
    and lt2: "k2 < unat (m_StepsPerHour st)"
    and n3: "\<forall>k<unat (m_StepsPerHour st).
               \<not> (hh (home_reads st + k1 + 1 + k2 + 1 + k) (shaft st + int k1 - int k2 + int k)
                    \<noteq> m_InvertHome st)"
  shows "fst (Home hh st) = StatusHomePhase3Error"
proof -
  let ?H = "m_StepsPerHour st"
  define s2 where "s2 = snd (IsHome hh ((read_step STEP_CCW StepFast ^^ k2)
                   (snd (IsHome hh ((read_step STEP_CW StepFast ^^ k1) st)))))"
  note H = Home_phases_1_2 [OF P n1 a1 lt1 a2 n2 lt2 s2_def]
  have n3': "\<forall>k<unat ?H. \<not> (hh (home_reads s2 + k) (shaft s2 + int k) \<noteq> m_InvertHome s2)"
    unfolding H(2,3,4) by (rule n3)
  have l3: "for_loop (not_IsHome hh) (Step STEP_CW StepSlow) ?H 0 s2 =
          (?H, snd (IsHome hh ((read_step STEP_CW StepSlow ^^ unat ?H) s2)))"
    using n3' by (rule loop_CW_exhaust)
  show ?thesis
    unfolding H(1) l3 prod.case by (simp add: after_loop_frame H(5))
qed

lemma Home_success:
  assumes P: "m_NumStepperPhases st \<noteq> 2"
    and n1: "\<forall>k<k1. \<not> (hh (home_reads st + k) (shaft st + int k) \<noteq> m_InvertHome st)"
    and a1: "hh (home_reads st + k1) (shaft st + int k1) \<noteq> m_InvertHome st"
    and lt1: "k1 < unat (m_StepsPerCycle st + m_StepsPerHour st)"
    and a2: "\<forall>k<k2. hh (home_reads st + k1 + 1 + k) (shaft st + int k1 - int k) \<noteq> m_InvertHome st"
    and n2: "\<not> (hh (home_reads st + k1 + 1 + k2) (shaft st + int k1 - int k2) \<noteq> m_InvertHome st)"
    and lt2: "k2 < unat (m_StepsPerHour st)"
    and n3: "\<forall>k<k3. \<not> (hh (home_reads st + k1 + 1 + k2 + 1 + k) (shaft st + int k1 - int k2 + int k)
                    \<noteq> m_InvertHome st)"
    and a3: "hh (home_reads st + k1 + 1 + k2 + 1 + k3) (shaft st + int k1 - int k2 + int k3)
                    \<noteq> m_InvertHome st"
    and lt3: "k3 < unat (m_StepsPerHour st)"
  shows "fst (Home hh st) = StatusSuccess"
    and "m_LastStepperPos (snd (Home hh st)) = 0"
    and "m_LastMinutes (snd (Home hh st)) = 0"
    and "shaft (snd (Home hh st)) = shaft st + int k1 - int k2 + int k3"
    and "m_StepsPerCycle (snd (Home hh st)) = m_StepsPerCycle st"
proof -
  let ?H = "m_StepsPerHour st"
  define s2 where "s2 = snd (IsHome hh ((read_step STEP_CCW StepFast ^^ k2)
                   (snd (IsHome hh ((read_step STEP_CW StepFast ^^ k1) st)))))"
  let ?s3 = "snd (IsHome hh ((read_step STEP_CW StepSlow ^^ k3) s2))"
  note H = Home_phases_1_2 [OF P n1 a1 lt1 a2 n2 lt2 s2_def]
  have n3': "\<forall>k<k3. \<not> (hh (home_reads s2 + k) (shaft s2 + int k) \<noteq> m_InvertHome s2)"
    unfolding H(2,3,4) by (rule n3)
  have a3': "hh (home_reads s2 + k3) (shaft s2 + int k3) \<noteq> m_InvertHome s2"
    unfolding H(2,3,4) by (rule a3)
  have l3: "for_loop (not_IsHome hh) (Step STEP_CW StepSlow) ?H 0 s2 = (word_of_nat k3, ?s3)"
    using n3' a3' lt3 by (rule loop_CW_found(1))
  have g3: "\<not> ?H \<le> word_of_nat k3"
    using n3' a3' lt3 by (rule loop_CW_found(2))
  have h3: "m_StepsPerHour ?s3 = ?H" by (simp only: after_loop_frame H(5))
  have R: "Home hh st = (StatusSuccess, ?s3\<lparr>m_LastStepperPos := 0, m_LastMinutes := 0\<rparr>)"
    unfolding H(1) l3 prod.case h3 using g3 by simp
  show "fst (Home hh st) = StatusSuccess" unfolding R by simp
  show "m_LastStepperPos (snd (Home hh st)) = 0" unfolding R by simp
  show "m_LastMinutes (snd (Home hh st)) = 0" unfolding R by simp
  show "shaft (snd (Home hh st)) = shaft st + int k1 - int k2 + int k3"
    unfolding R by (simp add: after_loop_board(4) H(3))
  show "m_StepsPerCycle (snd (Home hh st)) = m_StepsPerCycle st"
    unfolding R by (simp add: after_loop_frame H(6))
qed

subsection \<open>The concrete clock\<close>

lemma clock0_eq: "clock0 s = \<lparr>m_CurrentStepperPhase = 0, m_pStepperPins = [19, 16, 17, 21],
     m_NumStepperPhases = 8, m_StepperRapidDelayUs = 1953,
     m_StepperClearMask = 2818048,
     m_StepperSequence =
       [524288, 589824, 65536, 196608, 131072, 2228224, 2097152, 2621440],
     m_InvertHome = True, gpio_out = 0, trace = [], step_calls = [],
     shaft = s, home_reads = 0, m_LastStepperPos = 0, m_LastMinutes = 0,
     m_StepsPerHour = 5461, m_StepsPerCycle = 65536\<rparr>"
  unfolding clock0_def by code_simp

lemma clock0_fields:
  "m_NumStepperPhases (clock0 s) = 8" "m_InvertHome (clock0 s) = True"
  "shaft (clock0 s) = s" "m_LastStepperPos (clock0 s) = 0" "m_LastMinutes (clock0 s) = 0"
  "m_StepsPerHour (clock0 s) = 5461" "m_StepsPerCycle (clock0 s) = 65536"
  "step_calls (clock0 s) = []" "home_reads (clock0 s) = 0"
  by (simp_all add: clock0_eq)

lemma Home_from_below:
  assumes "m_NumStepperPhases st = 8" and "m_InvertHome st = True" and "shaft st = - 1000"
    and "m_StepsPerHour st = 5461" and "m_StepsPerCycle st = 65536"
  shows "fst (Home (range_sensor True 0 50) st) = StatusSuccess"
    and "m_LastStepperPos (snd (Home (range_sensor True 0 50) st)) = 0"
    and "m_LastMinutes (snd (Home (range_sensor True 0 50) st)) = 0"
    and "m_StepsPerCycle (snd (Home (range_sensor True 0 50) st)) = 65536"
    and "shaft (snd (Home (range_sensor True 0 50) st)) = 0"
proof -
  let ?hh = "range_sensor True 0 50"
  have act: "(?hh k p \<noteq> m_InvertHome st) = (0 \<le> p \<and> p < 50)" for k p
    by (auto simp add: range_sensor_def assms)
  have P: "m_NumStepperPhases st \<noteq> 2" by (simp add: assms)
  have n1: "\<forall>k<1000. \<not> (?hh (home_reads st + k) (shaft st + int k) \<noteq> m_InvertHome st)"
    unfolding act by (simp add: assms)
  have a1: "?hh (home_reads st + 1000) (shaft st + int 1000) \<noteq> m_InvertHome st"
    unfolding act by (simp add: assms)
  have lt1: "1000 < unat (m_StepsPerCycle st + m_StepsPerHour st)" by (simp add: assms)
  have a2: "\<forall>k<1. ?hh (home_reads st + 1000 + 1 + k) (shaft st + int 1000 - int k)
               \<noteq> m_InvertHome st"
    unfolding act by (simp add: assms)
  have n2: "\<not> (?hh (home_reads st + 1000 + 1 + 1) (shaft st + int 1000 - int 1) \<noteq> m_InvertHome st)"
    unfolding act by (simp add: assms)
  have lt2: "1 < unat (m_StepsPerHour st)" by (simp add: assms)
  have n3: "\<forall>k<1. \<not> (?hh (home_reads st + 1000 + 1 + 1 + 1 + k)
                       (shaft st + int 1000 - int 1 + int k) \<noteq> m_InvertHome st)"
    unfolding act by (simp add: assms)
  have a3: "?hh (home_reads st + 1000 + 1 + 1 + 1 + 1) (shaft st + int 1000 - int 1 + int 1)
              \<noteq> m_InvertHome st"
    unfolding act by (simp add: assms)
  note H = Home_success [OF P n1 a1 lt1 a2 n2 lt2 n3 a3 lt2]
  show "fst (Home ?hh st) = StatusSuccess" by (rule H(1))
  show "m_LastStepperPos (snd (Home ?hh st)) = 0" by (rule H(2))
  show "m_LastMinutes (snd (Home ?hh st)) = 0" by (rule H(3))
  show "m_StepsPerCycle (snd (Home ?hh st)) = 65536" unfolding H(5) by (rule assms(5))
  show "shaft (snd (Home ?hh st)) = 0" unfolding H(4) by (simp add: assms)
qed

subsection \<open>Failure leaves the position state alone\<close>

text \<open>
  Claim C10.  For every state of the clock and every sequence of readings of the
  home pin, where a reading may differ from the one before whether the shaft has
  moved or not: when \<open>Home\<close> returns a status other than \<open>StatusSuccess\<close>, that is,
  any of the three errors, the fields \<open>m_LastStepperPos\<close> and \<open>m_LastMinutes\<close> hold
  the values they had on entry; when it returns \<open>StatusSuccess\<close> both are 0.
\<close>

theorem Home_failure_keeps_position:
  "(fst (Home home_high st) \<noteq> StatusSuccess \<longrightarrow>
      m_LastStepperPos (snd (Home home_high st)) = m_LastStepperPos st
      \<and> m_LastMinutes (snd (Home home_high st)) = m_LastMinutes st)
   \<and> (fst (Home home_high st) = StatusSuccess \<longrightarrow>
      m_LastStepperPos (snd (Home home_high st)) = 0
      \<and> m_LastMinutes (snd (Home home_high st)) = 0)"
proof -
  let ?MAX = "m_StepsPerCycle st + m_StepsPerHour st"
  let ?l1 = "for_loop (not_IsHome home_high) (Step STEP_CW StepFast) ?MAX 0 st"
  obtain i1 st1 where l1: "?l1 = (i1, st1)" by (cases ?l1)
  let ?l2 = "for_loop (IsHome home_high) (Step STEP_CCW StepFast) (m_StepsPerHour st1) 0 st1"
  obtain i2 st2 where l2: "?l2 = (i2, st2)" by (cases ?l2)
  let ?l3 = "for_loop (not_IsHome home_high) (Step STEP_CW StepSlow) (m_StepsPerHour st2) 0 st2"
  obtain i3 st3 where l3: "?l3 = (i3, st3)" by (cases ?l3)
  have "m_LastStepperPos (snd ?l1) = m_LastStepperPos st"
    by (rule for_loop_keeps [where f = m_LastStepperPos]) (rule IsHome_frame Step_frame)+
  then have p1: "m_LastStepperPos st1 = m_LastStepperPos st" unfolding l1 by simp
  have "m_LastMinutes (snd ?l1) = m_LastMinutes st"
    by (rule for_loop_keeps [where f = m_LastMinutes]) (rule IsHome_frame Step_frame)+
  then have m1: "m_LastMinutes st1 = m_LastMinutes st" unfolding l1 by simp
  have "m_LastStepperPos (snd ?l2) = m_LastStepperPos st1"
    by (rule for_loop_keeps [where f = m_LastStepperPos]) (rule IsHome_frame Step_frame)+
  then have p2: "m_LastStepperPos st2 = m_LastStepperPos st" unfolding l2 p1 by simp
  have "m_LastMinutes (snd ?l2) = m_LastMinutes st1"
    by (rule for_loop_keeps [where f = m_LastMinutes]) (rule IsHome_frame Step_frame)+
  then have m2: "m_LastMinutes st2 = m_LastMinutes st" unfolding l2 m1 by simp
  have "m_LastStepperPos (snd ?l3) = m_LastStepperPos st2"
    by (rule for_loop_keeps [where f = m_LastStepperPos]) (rule IsHome_frame Step_frame)+
  then have p3: "m_LastStepperPos st3 = m_LastStepperPos st" unfolding l3 p2 by simp
  have "m_LastMinutes (snd ?l3) = m_LastMinutes st2"
    by (rule for_loop_keeps [where f = m_LastMinutes]) (rule IsHome_frame Step_frame)+
  then have m3: "m_LastMinutes st3 = m_LastMinutes st" unfolding l3 m2 by simp
  show ?thesis
    unfolding Home_def Let_def l1 prod.case l2 l3
    using p1 m1 p2 m2 p3 m3 by simp
qed

text \<open>
  The four ways out of \<open>Home\<close>, on the clock \<open>clock0\<close> with \<open>m_LastStepperPos = 100\<close>
  and \<open>m_LastMinutes = 7\<close>: a pin that never reads active (error 1), a pin that
  always reads active (error 2), a pin that reads active once and never again
  (error 3, after no step in the first two phases and 5461 in the third), and a
  sensor on the steps 0 to 49 that the shaft reaches from step -1000 (success).
\<close>

theorem Home_failure_keeps_position_witness:
  "fst (Home (fixed_level True) ((clock0 0)\<lparr>m_LastStepperPos := 100, m_LastMinutes := 7\<rparr>))
     = StatusHomePhase1Error
   \<and> m_LastStepperPos (snd (Home (fixed_level True)
         ((clock0 0)\<lparr>m_LastStepperPos := 100, m_LastMinutes := 7\<rparr>))) = 100
   \<and> m_LastMinutes (snd (Home (fixed_level True)
         ((clock0 0)\<lparr>m_LastStepperPos := 100, m_LastMinutes := 7\<rparr>))) = 7
   \<and> fst (Home (fixed_level False) ((clock0 0)\<lparr>m_LastStepperPos := 100, m_LastMinutes := 7\<rparr>))
     = StatusHomePhase2Error
   \<and> m_LastStepperPos (snd (Home (fixed_level False)
         ((clock0 0)\<lparr>m_LastStepperPos := 100, m_LastMinutes := 7\<rparr>))) = 100
   \<and> m_LastMinutes (snd (Home (fixed_level False)
         ((clock0 0)\<lparr>m_LastStepperPos := 100, m_LastMinutes := 7\<rparr>))) = 7
   \<and> fst (Home (early_sensor True 1) ((clock0 0)\<lparr>m_LastStepperPos := 100, m_LastMinutes := 7\<rparr>))
     = StatusHomePhase3Error
   \<and> m_LastStepperPos (snd (Home (early_sensor True 1)
         ((clock0 0)\<lparr>m_LastStepperPos := 100, m_LastMinutes := 7\<rparr>))) = 100
   \<and> m_LastMinutes (snd (Home (early_sensor True 1)
         ((clock0 0)\<lparr>m_LastStepperPos := 100, m_LastMinutes := 7\<rparr>))) = 7
   \<and> fst (Home (range_sensor True 0 50)
         ((clock0 (- 1000))\<lparr>m_LastStepperPos := 100, m_LastMinutes := 7\<rparr>)) = StatusSuccess
   \<and> m_LastStepperPos (snd (Home (range_sensor True 0 50)
         ((clock0 (- 1000))\<lparr>m_LastStepperPos := 100, m_LastMinutes := 7\<rparr>))) = 0
   \<and> m_LastMinutes (snd (Home (range_sensor True 0 50)
         ((clock0 (- 1000))\<lparr>m_LastStepperPos := 100, m_LastMinutes := 7\<rparr>))) = 0"
proof -
  let ?st = "(clock0 0)\<lparr>m_LastStepperPos := 100, m_LastMinutes := 7\<rparr>"
  let ?st' = "(clock0 (- 1000))\<lparr>m_LastStepperPos := 100, m_LastMinutes := 7\<rparr>"
  have P: "m_NumStepperPhases ?st \<noteq> 2" by (simp add: clock0_fields)
  have lt1: "0 < unat (m_StepsPerCycle ?st + m_StepsPerHour ?st)" by (simp add: clock0_fields)
  have lt2: "0 < unat (m_StepsPerHour ?st)" by (simp add: clock0_fields)
  have e1: "fst (Home (fixed_level True) ?st) = StatusHomePhase1Error"
    unfolding Home_phase1_error_iff by (simp add: clock0_fields fixed_level_def)
  have e2: "fst (Home (fixed_level False) ?st) = StatusHomePhase2Error"
  proof (rule Home_phase2_error [where ?k1.0 = 0, OF P _ _ lt1])
    show "\<forall>k<0. \<not> (fixed_level False (home_reads ?st + k) (shaft ?st + int k) \<noteq> m_InvertHome ?st)"
      by simp
    show "fixed_level False (home_reads ?st + 0) (shaft ?st + int 0) \<noteq> m_InvertHome ?st"
      by (simp add: clock0_fields fixed_level_def)
    show "\<forall>k<unat (m_StepsPerHour ?st).
            fixed_level False (home_reads ?st + 0 + 1 + k) (shaft ?st + int 0 - int k)
              \<noteq> m_InvertHome ?st"
      by (simp add: clock0_fields fixed_level_def)
  qed
  have e3: "fst (Home (early_sensor True 1) ?st) = StatusHomePhase3Error"
  proof (rule Home_phase3_error [where ?k1.0 = 0 and ?k2.0 = 0, OF P _ _ lt1 _ _ lt2])
    show "\<forall>k<0. \<not> (early_sensor True 1 (home_reads ?st + k) (shaft ?st + int k)
                       \<noteq> m_InvertHome ?st)"
      by simp
    show "early_sensor True 1 (home_reads ?st + 0) (shaft ?st + int 0) \<noteq> m_InvertHome ?st"
      by (simp add: clock0_fields early_sensor_def)
    show "\<forall>k<0. early_sensor True 1 (home_reads ?st + 0 + 1 + k) (shaft ?st + int 0 - int k)
                  \<noteq> m_InvertHome ?st"
      by simp
    show "\<not> (early_sensor True 1 (home_reads ?st + 0 + 1 + 0) (shaft ?st + int 0 - int 0)
               \<noteq> m_InvertHome ?st)"
      by (simp add: clock0_fields early_sensor_def)
    show "\<forall>k<unat (m_StepsPerHour ?st).
            \<not> (early_sensor True 1 (home_reads ?st + 0 + 1 + 0 + 1 + k)
                  (shaft ?st + int 0 - int 0 + int k) \<noteq> m_InvertHome ?st)"
      by (simp add: clock0_fields early_sensor_def)
  qed
  have e4: "fst (Home (range_sensor True 0 50) ?st') = StatusSuccess"
    by (rule Home_from_below) (simp_all add: clock0_fields)
  have s: "m_LastStepperPos ?st = 100" "m_LastMinutes ?st = 7" by simp_all
  have n1: "fst (Home (fixed_level True) ?st) \<noteq> StatusSuccess" unfolding e1 by simp
  have n2: "fst (Home (fixed_level False) ?st) \<noteq> StatusSuccess" unfolding e2 by simp
  have n3: "fst (Home (early_sensor True 1) ?st) \<noteq> StatusSuccess" unfolding e3 by simp
  show ?thesis
    using e1 e2 e3 e4
      Home_failure_keeps_position [of "fixed_level True" ?st, THEN conjunct1, rule_format, OF n1]
      Home_failure_keeps_position [of "fixed_level False" ?st, THEN conjunct1, rule_format, OF n2]
      Home_failure_keeps_position [of "early_sensor True 1" ?st, THEN conjunct1, rule_format, OF n3]
      Home_failure_keeps_position [of "range_sensor True 0 50" ?st', THEN conjunct2, rule_format, OF e4]
    unfolding s by (intro conjI) simp_all
qed

subsection \<open>A sensor first reached on the last step of the budget\<close>

text \<open>
  Claim C4, evaluated where it fails.  The clock \<open>clock0\<close> has \<open>MAX_STEPS = 70997\<close>.
  With the shaft at step 0 and the sensor active from step 70997 on, the first
  loop makes all 70997 steps, its condition then reads the sensor active (the last
  of its 70998 reads of the pin), and \<open>Home\<close> still returns
  \<open>StatusHomePhase1Error\<close>, because the counter has reached \<open>MAX_STEPS\<close>.
\<close>

theorem Home_phase1_boundary:
  "fst (Home (range_sensor True 70997 71100) (clock0 0)) = StatusHomePhase1Error
   \<and> shaft (snd (Home (range_sensor True 70997 71100) (clock0 0))) = 70997
   \<and> fst (IsHome (range_sensor True 70997 71100)
            (snd (Home (range_sensor True 70997 71100) (clock0 0))))
   \<and> unat (m_StepsPerCycle (clock0 0) + m_StepsPerHour (clock0 0)) = 70997
   \<and> home_reads (snd (Home (range_sensor True 70997 71100) (clock0 0))) = 70998
   \<and> (range_sensor True 70997 71100 70997 70997 \<noteq> m_InvertHome (clock0 0))"
proof -
  let ?hh = "range_sensor True 70997 71100"
  let ?s = "snd (IsHome ?hh ((read_step STEP_CW StepFast ^^ 70997) (clock0 0)))"
  have M: "unat (m_StepsPerCycle (clock0 0) + m_StepsPerHour (clock0 0)) = 70997"
    by (simp add: clock0_fields)
  have "\<forall>k<unat (m_StepsPerCycle (clock0 0) + m_StepsPerHour (clock0 0)).
              \<not> (?hh (home_reads (clock0 0) + k) (shaft (clock0 0) + int k)
                   \<noteq> m_InvertHome (clock0 0))"
    unfolding M by (simp add: clock0_fields range_sensor_def)
  then have H: "Home ?hh (clock0 0) = (StatusHomePhase1Error, ?s)"
    unfolding M [symmetric] by (rule Home_phase1_error)
  have sh: "shaft ?s = 70997"
    by (simp add: after_loop_board(4) clock0_fields)
  have r: "home_reads ?s = 70998"
    by (simp add: after_loop_board(1) clock0_fields)
  have i: "m_InvertHome ?s = True"
    by (simp add: after_loop_board(2) clock0_fields)
  have a: "fst (IsHome ?hh ?s)"
    unfolding IsHome_fst sh i by (simp add: range_sensor_def)
  have l: "range_sensor True 70997 71100 70997 70997 \<noteq> m_InvertHome (clock0 0)"
    by (simp add: range_sensor_def clock0_fields)
  show ?thesis unfolding H using M sh r a l by simp
qed

subsection \<open>A sensor active over a range of steps\<close>

text \<open>
  Claim C3 as stated fails: with a sensor active on steps 0 to 5999 and the shaft at
  step 5999, the sensor is reached at once, but the second phase cannot leave it
  within \<open>m_StepsPerHour = 5461\<close> steps, and \<open>Home\<close> returns
  \<open>StatusHomePhase2Error\<close>.
\<close>

theorem Home_wide_sensor_fails:
  "fst (IsHome (range_sensor True 0 6000) (clock0 5999))
   \<and> fst (Home (range_sensor True 0 6000) (clock0 5999)) = StatusHomePhase2Error"
proof -
  let ?hh = "range_sensor True 0 6000"
  have a: "fst (IsHome ?hh (clock0 5999))"
    by (simp add: IsHome_fst clock0_fields range_sensor_def)
  have "fst (Home ?hh (clock0 5999)) = StatusHomePhase2Error"
  proof (rule Home_phase2_error [where ?k1.0 = 0])
    show "m_NumStepperPhases (clock0 5999) \<noteq> 2" by (simp add: clock0_fields)
    show "\<forall>k<0. \<not> (?hh (home_reads (clock0 5999) + k) (shaft (clock0 5999) + int k)
                       \<noteq> m_InvertHome (clock0 5999))" by simp
    show "?hh (home_reads (clock0 5999) + 0) (shaft (clock0 5999) + int 0)
            \<noteq> m_InvertHome (clock0 5999)"
      by (simp add: clock0_fields range_sensor_def)
    show "0 < unat (m_StepsPerCycle (clock0 5999) + m_StepsPerHour (clock0 5999))"
      by (simp add: clock0_fields)
    show "\<forall>k<unat (m_StepsPerHour (clock0 5999)).
            ?hh (home_reads (clock0 5999) + 0 + 1 + k) (shaft (clock0 5999) + int 0 - int k)
              \<noteq> m_InvertHome (clock0 5999)"
      by (simp add: clock0_fields range_sensor_def)
  qed
  with a show ?thesis by simp
qed

text \<open>
  Claim C3, amended.  Let the sensor be active exactly on the steps \<open>lo\<close> to
  \<open>hi - 1\<close>, and the driver have 4 or 8 phases.  If the shaft starts below \<open>lo\<close>
  by fewer than \<open>m_StepsPerCycle + m_StepsPerHour\<close> steps (and \<open>m_StepsPerHour\<close> is at
  least 2), or inside the range with fewer than \<open>m_StepsPerHour\<close> steps down to
  \<open>lo - 1\<close> (and the first budget is not 0), then \<open>Home\<close> returns \<open>StatusSuccess\<close>
  with \<open>m_LastStepperPos = 0\<close> and \<open>m_LastMinutes = 0\<close>, and leaves the shaft at
  \<open>lo\<close>, whatever the starting phase index.
\<close>

theorem Home_finds_range_sensor:
  assumes P: "m_NumStepperPhases st = 4 \<or> m_NumStepperPhases st = 8"
    and r: "lo < hi"
    and start:
      "(shaft st < lo \<and> lo - shaft st < uint (m_StepsPerCycle st + m_StepsPerHour st)
          \<and> 2 \<le> uint (m_StepsPerHour st))
       \<or> (lo \<le> shaft st \<and> shaft st < hi \<and> shaft st - lo + 1 < uint (m_StepsPerHour st)
          \<and> 0 < uint (m_StepsPerCycle st + m_StepsPerHour st))"
  shows "fst (Home (range_sensor (m_InvertHome st) lo hi) st) = StatusSuccess
     \<and> m_LastStepperPos (snd (Home (range_sensor (m_InvertHome st) lo hi) st)) = 0
     \<and> m_LastMinutes (snd (Home (range_sensor (m_InvertHome st) lo hi) st)) = 0
     \<and> shaft (snd (Home (range_sensor (m_InvertHome st) lo hi) st)) = lo"
proof -
  let ?hh = "range_sensor (m_InvertHome st) lo hi"
  let ?r = "home_reads st"
  have act: "(?hh k p \<noteq> m_InvertHome st) = (lo \<le> p \<and> p < hi)" for k p
    by (auto simp add: range_sensor_def)
  have P2: "m_NumStepperPhases st \<noteq> 2" using P by auto
  from start show ?thesis
  proof
    assume a: "shaft st < lo \<and> lo - shaft st < uint (m_StepsPerCycle st + m_StepsPerHour st)
          \<and> 2 \<le> uint (m_StepsPerHour st)"
    define k1 where "k1 = nat (lo - shaft st)"
    have k1: "int k1 = lo - shaft st" unfolding k1_def using a by simp
    have n1: "\<forall>k<k1. \<not> (?hh (?r + k) (shaft st + int k) \<noteq> m_InvertHome st)"
      unfolding act using k1 by auto
    have a1: "?hh (?r + k1) (shaft st + int k1) \<noteq> m_InvertHome st"
      unfolding act using k1 r by simp
    have "int k1 < int (unat (m_StepsPerCycle st + m_StepsPerHour st))"
      unfolding k1 using a by (simp only: uint_nat)
    then have lt1: "k1 < unat (m_StepsPerCycle st + m_StepsPerHour st)"
      by (simp only: of_nat_less_iff)
    have a2: "\<forall>k<1. ?hh (?r + k1 + 1 + k) (shaft st + int k1 - int k) \<noteq> m_InvertHome st"
      unfolding act using k1 r by simp
    have n2: "\<not> (?hh (?r + k1 + 1 + 1) (shaft st + int k1 - int 1) \<noteq> m_InvertHome st)"
      unfolding act using k1 by simp
    have "2 \<le> int (unat (m_StepsPerHour st))" using a by (simp only: uint_nat)
    then have lt2: "1 < unat (m_StepsPerHour st)" by linarith
    have n3: "\<forall>k<1. \<not> (?hh (?r + k1 + 1 + 1 + 1 + k) (shaft st + int k1 - int 1 + int k)
                         \<noteq> m_InvertHome st)"
      unfolding act using k1 by simp
    have a3: "?hh (?r + k1 + 1 + 1 + 1 + 1) (shaft st + int k1 - int 1 + int 1) \<noteq> m_InvertHome st"
      unfolding act using k1 r by simp
    show ?thesis
      using Home_success [OF P2 n1 a1 lt1 a2 n2 lt2 n3 a3 lt2] k1 by simp
  next
    assume b: "lo \<le> shaft st \<and> shaft st < hi \<and> shaft st - lo + 1 < uint (m_StepsPerHour st)
          \<and> 0 < uint (m_StepsPerCycle st + m_StepsPerHour st)"
    define k2 where "k2 = nat (shaft st - lo + 1)"
    have k2: "int k2 = shaft st - lo + 1" unfolding k2_def using b by simp
    have n1: "\<forall>k<0. \<not> (?hh (?r + k) (shaft st + int k) \<noteq> m_InvertHome st)" by simp
    have a1: "?hh (?r + 0) (shaft st + int 0) \<noteq> m_InvertHome st"
      unfolding act using b by simp
    have "0 < int (unat (m_StepsPerCycle st + m_StepsPerHour st))"
      using b by (simp only: uint_nat)
    then have lt1: "0 < unat (m_StepsPerCycle st + m_StepsPerHour st)"
      by linarith
    have a2: "\<forall>k<k2. ?hh (?r + 0 + 1 + k) (shaft st + int 0 - int k) \<noteq> m_InvertHome st"
      unfolding act using k2 b by auto
    have n2: "\<not> (?hh (?r + 0 + 1 + k2) (shaft st + int 0 - int k2) \<noteq> m_InvertHome st)"
      unfolding act using k2 by simp
    have kk: "int k2 < int (unat (m_StepsPerHour st))"
      unfolding k2 using b by (simp only: uint_nat)
    then have lt2: "k2 < unat (m_StepsPerHour st)" by (simp only: of_nat_less_iff)
    have lt3: "1 < unat (m_StepsPerHour st)" using kk k2 b by linarith
    have n3: "\<forall>k<1. \<not> (?hh (?r + 0 + 1 + k2 + 1 + k) (shaft st + int 0 - int k2 + int k)
                         \<noteq> m_InvertHome st)"
      unfolding act using k2 by simp
    have a3: "?hh (?r + 0 + 1 + k2 + 1 + 1) (shaft st + int 0 - int k2 + int 1) \<noteq> m_InvertHome st"
      unfolding act using k2 r b by simp
    show ?thesis
      using Home_success [OF P2 n1 a1 lt1 a2 n2 lt2 n3 a3 lt3] k2 by simp
  qed
qed

theorem Home_finds_range_sensor_witness:
  "(m_NumStepperPhases (clock0 (- 1000)) = 4 \<or> m_NumStepperPhases (clock0 (- 1000)) = 8)
   \<and> (0 :: int) < 50
   \<and> shaft (clock0 (- 1000)) < 0
   \<and> 0 - shaft (clock0 (- 1000))
        < uint (m_StepsPerCycle (clock0 (- 1000)) + m_StepsPerHour (clock0 (- 1000)))
   \<and> 2 \<le> uint (m_StepsPerHour (clock0 (- 1000)))
   \<and> fst (Home (range_sensor True 0 50) (clock0 (- 1000))) = StatusSuccess
   \<and> m_LastStepperPos (snd (Home (range_sensor True 0 50) (clock0 (- 1000)))) = 0
   \<and> m_LastMinutes (snd (Home (range_sensor True 0 50) (clock0 (- 1000)))) = 0
   \<and> shaft (snd (Home (range_sensor True 0 50) (clock0 (- 1000)))) = 0"
proof -
  let ?st = "clock0 (- 1000)"
  have h1: "m_NumStepperPhases ?st = 4 \<or> m_NumStepperPhases ?st = 8"
    by (simp add: clock0_fields)
  have h2: "(0 :: int) < 50" by simp
  have h3: "shaft ?st < 0 \<and> 0 - shaft ?st < uint (m_StepsPerCycle ?st + m_StepsPerHour ?st)
          \<and> 2 \<le> uint (m_StepsPerHour ?st)"
    by (simp add: clock0_fields)
  then have h4: "(shaft ?st < 0 \<and> 0 - shaft ?st < uint (m_StepsPerCycle ?st + m_StepsPerHour ?st)
          \<and> 2 \<le> uint (m_StepsPerHour ?st))
       \<or> (0 \<le> shaft ?st \<and> shaft ?st < 50 \<and> shaft ?st - 0 + 1 < uint (m_StepsPerHour ?st)
          \<and> 0 < uint (m_StepsPerCycle ?st + m_StepsPerHour ?st))"
    by (rule disjI1)
  have i: "m_InvertHome ?st = True" by (simp add: clock0_fields)
  show ?thesis
    using Home_finds_range_sensor [OF h1 h2 h4] h1 h2 h3 unfolding i by (intro conjI) simp_all
qed

section \<open>Properties of UpdateClock\<close>

subsection \<open>One update, field by field\<close>

lemma UpdateClock_same:
  assumes "newTimeInMinutes t = m_LastMinutes st"
  shows "UpdateClock t st = Some st"
  using assms by (simp add: UpdateClock_def Let_def)

lemma UpdateClock_moves:
  assumes "newTimeInMinutes t \<noteq> m_LastMinutes st" and "m_StepsPerCycle st \<noteq> 0"
  shows "\<exists>st'. UpdateClock t st = Some st'
     \<and> m_LastMinutes st' = newTimeInMinutes t
     \<and> m_StepsPerCycle st' = m_StepsPerCycle st
     \<and> m_LastStepperPos st' =
         smod32 (m_LastStepperPos st
                 + deltaSteps (newMotorPos (newTimeInMinutes t) (m_StepsPerCycle st))
                     (m_LastStepperPos st) (m_StepsPerCycle st))
           (m_StepsPerCycle st)
     \<and> step_calls st' = step_calls st
         @ [(deltaSteps (newMotorPos (newTimeInMinutes t) (m_StepsPerCycle st))
               (m_LastStepperPos st) (m_StepsPerCycle st), StepAuto)]"
  using assms by (simp add: UpdateClock_def Let_def Step_frame Step_board_frame)

lemmas eval32 = newTimeInMinutes_def newMotorPos_def deltaSteps_def hhmm_def sdiv32_def smod32_def
  MINUTES_PER_CYCLE_def MINUTES_PER_HOUR_def HOURS_PER_CYCLE_def HOURS_PER_REV_def GEAR_RATIO_def
  signed_divide_int_def signed_modulo_int_def word_sless_alt Let_def

lemma time_values:
  "newTimeInMinutes (hhmm 0 0) = 0" "newTimeInMinutes (hhmm 6 0) = 360"
  "newTimeInMinutes (hhmm 6 1) = 361" "newTimeInMinutes (hhmm 11 0) = 660"
  "newTimeInMinutes (hhmm 5 30) = 330" "newTimeInMinutes (hhmm 11 54) = 714"
  "newTimeInMinutes (hhmm 11 59) = 719"
  by (simp_all add: eval32)

lemma pos_values:
  "newMotorPos 0 65536 = 0" "newMotorPos 360 65536 = 32768" "newMotorPos 361 65536 = 32859"
  "newMotorPos 660 65536 = 60074" "newMotorPos 330 65536 = 30037" "newMotorPos 714 65536 = 64989"
  "newMotorPos 719 65536 = 65444"
  by (simp_all add: eval32)

lemma delta_values:
  "deltaSteps 32859 0 65536 = - 32677"
  "deltaSteps 60074 0 65536 = - 5462"
  "deltaSteps 30037 (- 5462) 65536 = - 30037"
  "deltaSteps 64989 (- 35499) 65536 = 34952"
  "deltaSteps 65444 0 65536 = - 92"
  "deltaSteps 0 (- 92) 65536 = 92"
  by (simp_all add: eval32)

lemma smod_values:
  "smod32 (- 5462) 65536 = - 5462"
  "smod32 (- 35499) 65536 = - 35499"
  "smod32 (- 547) 65536 = - 547"
  "smod32 (- 32677) 65536 = - 32677"
  "smod32 (- 92) 65536 = - 92"
  "smod32 0 65536 = 0"
  by (simp_all add: eval32)

lemma UpdateClock_seq_Some:
  assumes "UpdateClock t st = Some st'"
  shows "UpdateClock_seq (t # ts) st = UpdateClock_seq ts st'"
  using assms by simp

lemma UpdateClock_step:
  assumes "m_StepsPerCycle st = 65536" and "newTimeInMinutes t \<noteq> m_LastMinutes st"
  shows "\<exists>st'. UpdateClock t st = Some st'
     \<and> m_LastMinutes st' = newTimeInMinutes t
     \<and> m_StepsPerCycle st' = 65536
     \<and> m_LastStepperPos st' =
         smod32 (m_LastStepperPos st
                 + deltaSteps (newMotorPos (newTimeInMinutes t) 65536) (m_LastStepperPos st) 65536)
           65536
     \<and> step_calls st' = step_calls st
         @ [(deltaSteps (newMotorPos (newTimeInMinutes t) 65536) (m_LastStepperPos st) 65536,
             StepAuto)]"
proof -
  have "m_StepsPerCycle st \<noteq> 0" using assms(1) by simp
  from UpdateClock_moves [OF assms(2) this] show ?thesis unfolding assms(1) .
qed

lemma Home_clock0_from_below:
  "fst (Home (range_sensor True 0 50) (clock0 (- 1000))) = StatusSuccess"
  "m_LastStepperPos (snd (Home (range_sensor True 0 50) (clock0 (- 1000)))) = 0"
  "m_LastMinutes (snd (Home (range_sensor True 0 50) (clock0 (- 1000)))) = 0"
  "m_StepsPerCycle (snd (Home (range_sensor True 0 50) (clock0 (- 1000)))) = 65536"
  by (rule Home_from_below, simp_all add: clock0_fields)+

subsection \<open>The stored position goes negative\<close>

text \<open>
  Claim C2, evaluated where it fails.  \<open>m_LastStepperPos\<close> is 0 after construction
  and 0 or unchanged after \<open>Home\<close>, but \<open>UpdateClock\<close> stores the C++ remainder
  \<open>(m_LastStepperPos + deltaSteps) % m_StepsPerCycle\<close>, which is negative when the sum
  is.  On the freshly constructed clock, whose cycle has 65536 steps, the update for
  11:00 moves by -5462 steps and leaves \<open>m_LastStepperPos\<close> at -5462, outside
  0 to 65535.
\<close>

theorem UpdateClock_negative_position:
  "map_option (\<lambda>s. sint (m_LastStepperPos s)) (UpdateClock (hhmm 11 0) (clock0 0)) = Some (- 5462)
   \<and> m_LastStepperPos (clock0 0) = 0
   \<and> sint (m_StepsPerCycle (clock0 0)) = 65536"
proof -
  obtain s1 where s1: "UpdateClock (hhmm 11 0) (clock0 0) = Some s1"
      "m_LastStepperPos s1 = - 5462"
    using UpdateClock_step [of "clock0 0" "hhmm 11 0"]
    by (auto simp add: clock0_fields time_values pos_values delta_values smod_values)
  show ?thesis unfolding s1(1) using s1(2) by (simp add: clock0_fields)
qed

subsection \<open>A move of more than half a cycle\<close>

text \<open>
  Claim C1, evaluated where it fails.  After a successful \<open>Home\<close> the updates for
  11:00 and 05:30 leave \<open>m_LastStepperPos\<close> at -35499 (the same place on the ring as
  30037, but below minus half a cycle).  The update for 11:54 then computes the
  difference 64989 + 35499 = 100488, subtracts one cycle, and calls
  \<open>Step(34952, StepAuto)\<close>: more than half of the 65536 steps of the cycle, where
  30584 steps the other way reach the same place.
\<close>

theorem UpdateClock_long_way_round:
  "fst (Home (range_sensor True 0 50) (clock0 (- 1000))) = StatusSuccess
   \<and> map_option (\<lambda>s. (sint (m_LastStepperPos s), sint (m_StepsPerCycle s)))
        (UpdateClock_seq [hhmm 11 0, hhmm 5 30]
           (snd (Home (range_sensor True 0 50) (clock0 (- 1000))))) = Some (- 35499, 65536)
   \<and> map_option (\<lambda>s. (sint (fst (last (step_calls s))), snd (last (step_calls s))))
        (UpdateClock_seq [hhmm 11 0, hhmm 5 30, hhmm 11 54]
           (snd (Home (range_sensor True 0 50) (clock0 (- 1000))))) = Some (34952, StepAuto)"
proof -
  let ?s0 = "snd (Home (range_sensor True 0 50) (clock0 (- 1000)))"
  note h = Home_clock0_from_below
  obtain s1 where s1: "UpdateClock (hhmm 11 0) ?s0 = Some s1" "m_LastMinutes s1 = 660"
      "m_StepsPerCycle s1 = 65536" "m_LastStepperPos s1 = - 5462"
    using UpdateClock_step [of ?s0 "hhmm 11 0"] h
    by (auto simp add: time_values pos_values delta_values smod_values)
  obtain s2 where s2: "UpdateClock (hhmm 5 30) s1 = Some s2" "m_LastMinutes s2 = 330"
      "m_StepsPerCycle s2 = 65536" "m_LastStepperPos s2 = - 35499"
    using UpdateClock_step [of s1 "hhmm 5 30"] s1
    by (auto simp add: time_values pos_values delta_values smod_values)
  obtain s3 where s3: "UpdateClock (hhmm 11 54) s2 = Some s3"
      "step_calls s3 = step_calls s2 @ [(34952, StepAuto)]"
    using UpdateClock_step [of s2 "hhmm 11 54"] s2
    by (auto simp add: time_values pos_values delta_values smod_values)
  have a: "UpdateClock_seq [hhmm 11 0, hhmm 5 30] ?s0 = Some s2"
    using s1(1) s2(1) by simp
  have b: "UpdateClock_seq [hhmm 11 0, hhmm 5 30, hhmm 11 54] ?s0 = Some s3"
    using s1(1) s2(1) s3(1) by simp
  show ?thesis
    unfolding a b using h(1) s2(3,4) s3(2) by simp
qed

text \<open>The scenario of the same claim that does hold: 11:59, then 00:00.\<close>

lemma UpdateClock_wraparound_example:
  "map_option (\<lambda>s. map (\<lambda>c. sint (fst c)) (step_calls s))
     (UpdateClock_seq [hhmm 11 59, hhmm 0 0] (clock0 0)) = Some [- 92, 92]"
proof -
  obtain s1 where s1: "UpdateClock (hhmm 11 59) (clock0 0) = Some s1" "m_LastMinutes s1 = 719"
      "m_StepsPerCycle s1 = 65536" "m_LastStepperPos s1 = - 92"
      "step_calls s1 = [(- 92, StepAuto)]"
    using UpdateClock_step [of "clock0 0" "hhmm 11 59"]
    by (auto simp add: clock0_fields time_values pos_values delta_values smod_values)
  obtain s2 where s2: "UpdateClock (hhmm 0 0) s1 = Some s2"
      "step_calls s2 = step_calls s1 @ [(92, StepAuto)]"
    using UpdateClock_step [of s1 "hhmm 0 0"] s1
    by (auto simp add: time_values pos_values delta_values smod_values)
  have "UpdateClock_seq [hhmm 11 59, hhmm 0 0] (clock0 0) = Some s2"
    using s1(1) s2(1) by simp
  then show ?thesis using s1(5) s2(2) by simp
qed

subsection \<open>The default configuration\<close>

text \<open>
  Claim C9.  With 2048 full steps per revolution and half stepping,
  \<open>m_StepsPerCycle\<close> is 65536, which is exactly
  \<open>stepsPerRev * GEAR_RATIO * HOURS_PER_CYCLE / HOURS_PER_REV\<close> with nothing lost in the
  division.  The position computed for 00:00 is 0 and the one for 06:00 is
  \<open>m_StepsPerCycle / 2\<close>.  On the constructed clock, the updates for 00:00 (no change
  of minute, so no move) and then 06:01 make one call of \<open>Step\<close> in all, with the
  position for 06:01 (32859) minus 0 normalised to the shorter way round:
  32859 - 65536 = -32677 steps.
\<close>

theorem default_clock_scenario:
  "m_StepsPerCycle (clock0 s) = 65536
   \<and> uint (m_StepsPerCycle (clock0 s)) * uint HOURS_PER_REV
       = (2048 * 2) * uint GEAR_RATIO * uint HOURS_PER_CYCLE
   \<and> HOURS_PER_CYCLE mod HOURS_PER_REV = 0
   \<and> newMotorPos (newTimeInMinutes (hhmm 0 0)) (m_StepsPerCycle (clock0 s)) = 0
   \<and> newMotorPos (newTimeInMinutes (hhmm 6 0)) (m_StepsPerCycle (clock0 s))
       = sdiv32 (m_StepsPerCycle (clock0 s)) 2
   \<and> sdiv32 (m_StepsPerCycle (clock0 s)) 2 = 32768
   \<and> map_option step_calls (UpdateClock_seq [hhmm 0 0, hhmm 6 1] (clock0 s))
       = Some [(deltaSteps (newMotorPos (newTimeInMinutes (hhmm 6 1)) (m_StepsPerCycle (clock0 s)))
                  0 (m_StepsPerCycle (clock0 s)), StepAuto)]
   \<and> newMotorPos (newTimeInMinutes (hhmm 6 1)) (m_StepsPerCycle (clock0 s)) = 32859
   \<and> deltaSteps 32859 0 (m_StepsPerCycle (clock0 s)) = - 32677
   \<and> sint (- 32677 :: 32 word) = 32859 - 65536"
proof -
  have u0: "UpdateClock (hhmm 0 0) (clock0 s) = Some (clock0 s)"
    by (rule UpdateClock_same) (simp add: clock0_fields time_values)
  obtain s1 where s1: "UpdateClock (hhmm 6 1) (clock0 s) = Some s1"
      "step_calls s1 = [(- 32677, StepAuto)]"
    using UpdateClock_step [of "clock0 s" "hhmm 6 1"]
    by (auto simp add: clock0_fields time_values pos_values delta_values smod_values)
  have q: "UpdateClock_seq [hhmm 0 0, hhmm 6 1] (clock0 s) = Some s1"
    using u0 s1(1) by simp
  have e: "sdiv32 65536 2 = 32768" by (simp add: eval32)
  show ?thesis
    unfolding q using s1(2)
    by (simp add: clock0_fields time_values pos_values delta_values e
          HOURS_PER_REV_def HOURS_PER_CYCLE_def GEAR_RATIO_def)
qed

end
